theory Spec2Isabelle
  imports Main "HOL-Library.Sublist"
begin

section \<open>tiler: an image pyramid generator (main.go)\<close>

text \<open>
  The program reads one source image and a maximum zoom level, and for every level from
  that maximum down to 0 resamples the source to a square raster whose side is
  \<open>2 ^ level * tileSize\<close> pixels and cuts the raster into tiles of \<open>tileSize\<close> pixels, one
  file per tile. This theory embeds \<^verbatim>\<open>main.go\<close>: the string functions behind
  \<^verbatim>\<open>fileName\<close>, the rectangles and buffers behind \<^verbatim>\<open>Crop\<close>, the loops of
  \<^verbatim>\<open>SplitTiles\<close> and the validation and driver loop of \<^verbatim>\<open>main\<close>.
\<close>

subsection \<open>Go integers\<close>

text \<open>
  Go's \<^verbatim>\<open>int\<close> and \<^verbatim>\<open>uint\<close> are 64 bits wide on the platforms the program is built for
  (amd64, arm64). Values are kept as HOL integers and every operation of the source that
  can leave the range is followed by the wrap-around it has in Go: \<open>int64\<close> is the
  two's complement reading of the low 64 bits, \<open>uint64\<close> the unsigned one.
\<close>

definition int64 :: "int \<Rightarrow> int" where
  "int64 n = (n + 2 ^ 63) mod 2 ^ 64 - 2 ^ 63"

definition uint64 :: "int \<Rightarrow> int" where
  "uint64 n = n mod 2 ^ 64"

subsection \<open>strconv.Itoa and strings.Replace\<close>

definition digit :: "nat \<Rightarrow> char" where
  "digit d = ''0123456789'' ! d"

function decimal :: "nat \<Rightarrow> string" where
  "decimal n = (if n < 10 then [digit n] else decimal (n div 10) @ [digit (n mod 10)])"
  by pat_completeness auto
termination
  by (relation "measure id") auto

declare decimal.simps [simp del]

text \<open>\<^verbatim>\<open>strconv.Itoa(i)\<close>: the decimal text of \<open>i\<close>, with a minus sign when negative.\<close>

definition Itoa :: "int \<Rightarrow> string" where
  "Itoa i = (if i < 0 then CHR ''-'' # decimal (nat (- i)) else decimal (nat i))"

text \<open>
  \<^verbatim>\<open>strings.Replace(s, old, new, n)\<close> replaces the first \<open>n\<close> non-overlapping
  occurrences of \<open>old\<close> in \<open>s\<close>, found from left to right, and all of them when
  \<open>n < 0\<close>. \<open>replaceFrom\<close> is the scan: at each position either \<open>old\<close> starts there and
  is replaced, or one byte is copied. The program calls it with the three non-empty
  placeholders only; Go's rule for an empty \<open>old\<close> (an insertion at every rune boundary)
  is outside the model, where an empty \<open>old\<close> never matches.
\<close>

function replaceFrom :: "int \<Rightarrow> string \<Rightarrow> string \<Rightarrow> string \<Rightarrow> string" where
  "replaceFrom n old new [] = []"
| "replaceFrom n old new (c # cs) =
     (if n = 0 then c # cs
      else if old \<noteq> [] \<and> prefix old (c # cs)
        then new @ replaceFrom (n - 1) old new (drop (length old) (c # cs))
      else c # replaceFrom n old new cs)"
  by pat_completeness auto
termination
  by (relation "measure (\<lambda>(n, old, new, s). length s)") (auto simp: neq_Nil_conv)

definition Replace :: "string \<Rightarrow> string \<Rightarrow> string \<Rightarrow> int \<Rightarrow> string" where
  "Replace s old new n = replaceFrom n old new s"

text \<open>\<^verbatim>\<open>fileName\<close> (main.go, lines 193 to 198): three replacements, one after the other.\<close>

definition fileName :: "string \<Rightarrow> int \<Rightarrow> int \<Rightarrow> int \<Rightarrow> string" where
  "fileName p zoom x y =
     (let p1 = Replace p ''{zoom}'' (Itoa zoom) (- 1);
          p2 = Replace p1 ''{x}'' (Itoa x) (- 1);
          p3 = Replace p2 ''{y}'' (Itoa y) (- 1)
      in p3)"

text \<open>
  The specification's reading of the same function, for comparison: one pass over the
  pattern in which each occurrence of a placeholder is replaced by its value and every
  other byte is copied, so that text which is not one of the three placeholders (a
  \<open>{z}\<close>, a lone brace) stays as it is.
\<close>

function substituteSpec :: "string \<Rightarrow> string \<Rightarrow> string \<Rightarrow> string \<Rightarrow> string" where
  "substituteSpec zs xs ys [] = []"
| "substituteSpec zs xs ys (c # cs) =
     (if prefix ''{zoom}'' (c # cs) then zs @ substituteSpec zs xs ys (drop 6 (c # cs))
      else if prefix ''{x}'' (c # cs) then xs @ substituteSpec zs xs ys (drop 3 (c # cs))
      else if prefix ''{y}'' (c # cs) then ys @ substituteSpec zs xs ys (drop 3 (c # cs))
      else c # substituteSpec zs xs ys cs)"
  by pat_completeness auto
termination
  by (relation "measure (\<lambda>(zs, xs, ys, s). length s)") auto

subsection \<open>strconv.ParseInt and filepath.Ext\<close>

datatype NumError = ErrSyntax | ErrRange

text \<open>A byte from \<open>0\<close> to \<open>9\<close> is the digit \<open>c - 0x30\<close>; any other byte is none.\<close>

definition digitVal :: "char \<Rightarrow> int option" where
  "digitVal c = (if 48 \<le> (of_char c :: int) \<and> (of_char c :: int) \<le> 57
                 then Some (of_char c - 48) else None)"

text \<open>
  The digit loop of \<^verbatim>\<open>strconv.ParseUint(s, 10, 64)\<close>: a byte that is no decimal digit is
  a syntax error, a value that leaves 64 bits a range error.
\<close>

fun parseUint :: "int \<Rightarrow> string \<Rightarrow> NumError + int" where
  "parseUint n [] = Inr n"
| "parseUint n (c # cs) =
     (case digitVal c of
        None \<Rightarrow> Inl ErrSyntax
      | Some d \<Rightarrow>
          if n \<ge> (2 ^ 64 - 1) div 10 + 1 then Inl ErrRange
          else if n * 10 + d > 2 ^ 64 - 1 then Inl ErrRange
          else parseUint (n * 10 + d) cs)"

text \<open>\<^verbatim>\<open>strconv.ParseInt(s, 10, 64)\<close>: an optional sign, then at least one digit.\<close>

definition ParseInt :: "string \<Rightarrow> NumError + int" where
  "ParseInt s =
     (if s = [] then Inl ErrSyntax
      else
        let neg = (hd s = CHR ''-'');
            s1 = (if hd s = CHR ''+'' \<or> hd s = CHR ''-'' then tl s else s)
        in if s1 = [] then Inl ErrSyntax
           else
             (case parseUint 0 s1 of
                Inl e \<Rightarrow> Inl e
              | Inr un \<Rightarrow>
                  if \<not> neg \<and> un \<ge> 2 ^ 63 then Inl ErrRange
                  else if neg \<and> un > 2 ^ 63 then Inl ErrRange
                  else Inr (if neg then - un else un)))"

text \<open>
  The text of a \<^verbatim>\<open>*strconv.NumError\<close>. Go quotes the input with \<^verbatim>\<open>strconv.Quote\<close>,
  which also escapes special characters; here the input stands between plain quotes.
\<close>

definition numErrorText :: "string \<Rightarrow> NumError \<Rightarrow> string" where
  "numErrorText s e =
     ''strconv.ParseInt: parsing '' @ [CHR 0x22] @ s @ [CHR 0x22] @ '': '' @
     (case e of ErrSyntax \<Rightarrow> ''invalid syntax'' | ErrRange \<Rightarrow> ''value out of range'')"

text \<open>
  \<^verbatim>\<open>filepath.Ext(path)\<close>: the suffix from the last dot of the last path element, empty
  when that element has no dot. The scan runs from the end of the path.
\<close>

fun extScan :: "string \<Rightarrow> string \<Rightarrow> string" where
  "extScan [] seen = []"
| "extScan (c # rest) seen =
     (if c = CHR ''/'' then []
      else if c = CHR ''.'' then c # seen
      else extScan rest (c # seen))"

definition Ext :: "string \<Rightarrow> string" where
  "Ext path = extScan (rev path) []"

subsection \<open>Rectangles, images and drawing (packages image and image/draw)\<close>

type_synonym Point = "int \<times> int"

record Rectangle =
  rMin :: Point
  rMax :: Point

text \<open>\<^verbatim>\<open>image.Rect\<close> orders the corners it is given.\<close>

definition Rect :: "int \<Rightarrow> int \<Rightarrow> int \<Rightarrow> int \<Rightarrow> Rectangle" where
  "Rect x0 y0 x1 y1 =
     \<lparr>rMin = (if x0 > x1 then x1 else x0, if y0 > y1 then y1 else y0),
      rMax = (if x0 > x1 then x0 else x1, if y0 > y1 then y0 else y1)\<rparr>"

definition Dx :: "Rectangle \<Rightarrow> int" where
  "Dx r = int64 (fst (rMax r) - fst (rMin r))"

definition Dy :: "Rectangle \<Rightarrow> int" where
  "Dy r = int64 (snd (rMax r) - snd (rMin r))"

definition rectEmpty :: "Rectangle \<Rightarrow> bool" where
  "rectEmpty r = (fst (rMin r) \<ge> fst (rMax r) \<or> snd (rMin r) \<ge> snd (rMax r))"

text \<open>\<^verbatim>\<open>p.In(r)\<close>: the point lies in the rectangle, whose maximum is exclusive.\<close>

definition In :: "Point \<Rightarrow> Rectangle \<Rightarrow> bool" where
  "In p r =
     (fst (rMin r) \<le> fst p \<and> fst p < fst (rMax r) \<and>
      snd (rMin r) \<le> snd p \<and> snd p < snd (rMax r))"

definition ZR :: Rectangle where
  "ZR = \<lparr>rMin = (0, 0), rMax = (0, 0)\<rparr>"

definition Intersect :: "Rectangle \<Rightarrow> Rectangle \<Rightarrow> Rectangle" where
  "Intersect r s =
     (let r1 = \<lparr>rMin = (max (fst (rMin r)) (fst (rMin s)), max (snd (rMin r)) (snd (rMin s))),
                rMax = (min (fst (rMax r)) (fst (rMax s)), min (snd (rMax r)) (snd (rMax s)))\<rparr>
      in if rectEmpty r1 then ZR else r1)"

definition addPoint :: "Point \<Rightarrow> Point \<Rightarrow> Point" where
  "addPoint p q = (int64 (fst p + fst q), int64 (snd p + snd q))"

definition subPoint :: "Point \<Rightarrow> Point \<Rightarrow> Point" where
  "subPoint p q = (int64 (fst p - fst q), int64 (snd p - snd q))"

definition rectAdd :: "Rectangle \<Rightarrow> Point \<Rightarrow> Rectangle" where
  "rectAdd r p = \<lparr>rMin = addPoint (rMin r) p, rMax = addPoint (rMax r) p\<rparr>"

text \<open>
  An image is its bounds and the colour at each point. Images live in a heap, a list of
  buffers addressed by position, so that a function that allocates a buffer and one that
  writes into an existing one are told apart.
\<close>

record 'c Image =
  Bounds :: Rectangle
  At :: "Point \<Rightarrow> 'c"

type_synonym 'c Heap = "'c Image list"

subsection \<open>The world outside the program\<close>

text \<open>
  What the program takes from its libraries and from the operating system is a parameter
  of the model, the record \<open>World\<close>:
  \<^item> \<open>Resize\<close> is \<^verbatim>\<open>resize.Resize\<close> of github.com/nfnt/resize, \<open>RGBAModel\<close> the colour
    conversion with which an \<^verbatim>\<open>*image.RGBA\<close> stores a colour, \<open>Transparent\<close> the colour
    of a freshly allocated RGBA pixel, \<open>Join\<close> is \<^verbatim>\<open>filepath.Join\<close>;
  \<^item> \<open>Stat\<close>, \<open>MkdirAll\<close>, \<open>Open\<close>, \<open>pngDecode\<close> and \<open>bmpDecode\<close> give the results of the
    calls \<^verbatim>\<open>main\<close> makes before the pyramid is built (\<open>None\<close>: no error);
  \<^item> \<open>createErr\<close> and \<open>encodeErr\<close> say, for the \<^verbatim>\<open>Crop\<close> call of each tile coordinate
    \<open>(level, x, y)\<close>, whether \<^verbatim>\<open>os.Create\<close> and the encoder fail there, and with which
    error text.
  Memory is not modelled: every allocation succeeds.
\<close>

datatype InterpolationFunction =
  NearestNeighbor | Bilinear | Bicubic | MitchellNetravali | Lanczos2 | Lanczos3

datatype StatResult = StatOk | StatNotExist | StatError string

type_synonym Coord = "int \<times> int \<times> int"

record 'c World =
  Resize :: "int \<Rightarrow> int \<Rightarrow> 'c Image \<Rightarrow> InterpolationFunction \<Rightarrow> 'c Image"
  RGBAModel :: "'c \<Rightarrow> 'c"
  Transparent :: 'c
  Join :: "string \<Rightarrow> string \<Rightarrow> string"
  Stat :: "string \<Rightarrow> StatResult"
  MkdirAll :: "string \<Rightarrow> string option"
  Open :: "string \<Rightarrow> string option"
  pngDecode :: "string \<Rightarrow> string + 'c Image"
  bmpDecode :: "string \<Rightarrow> string + 'c Image"
  createErr :: "Coord \<Rightarrow> string option"
  encodeErr :: "Coord \<Rightarrow> string option"

text \<open>The flags and positional arguments, as \<^verbatim>\<open>flag.Parse\<close> leaves them.\<close>

record Flags =
  flagTileSize :: int
  flagJpegQuality :: int
  flagEncoding :: string
  flagPattern :: string
  flagInterpFunc :: string
  flagOutDir :: string
  args :: "string list"

text \<open>
  What a run does to the outside is recorded as a trace of events: what it prints, and
  the calls that create directories, resample and write files, each with its arguments
  and, where the program looks at it, its result. \<open>CreateCall\<close> and \<open>EncodeCall\<close> also
  carry the coordinate of the \<^verbatim>\<open>Crop\<close> call that made them. The type parameter is the
  tile handed to the encoder.
\<close>

datatype Encoder = PNG | JPEG int

datatype 'i Event =
    Stderr string
  | Stdout string
  | LogPrintln string
  | MkdirAllCall string
  | ResizeCall nat int int InterpolationFunction
  | CreateCall Coord string "string option"
  | EncodeCall Coord string 'i Encoder "string option"

record 'c State =
  heap :: "'c Heap"
  trace :: "'c Image Event list"

text \<open>How the process ends: \<^verbatim>\<open>main\<close> returns, or \<^verbatim>\<open>log.Fatal\<close> prints and exits with 1.\<close>

datatype Status = Exit0 | Fatal string

subsection \<open>Crop (main.go, lines 163 to 191)\<close>

text \<open>\<^verbatim>\<open>image.NewRGBA(r)\<close>: a new buffer, at an address no buffer had before.\<close>

definition NewRGBA :: "'c World \<Rightarrow> Rectangle \<Rightarrow> 'c Heap \<Rightarrow> nat \<times> 'c Heap" where
  "NewRGBA W r h = (length h, h @ [\<lparr>Bounds = r, At = \<lambda>p. Transparent W\<rparr>])"

text \<open>
  \<^verbatim>\<open>draw.Draw(dst, r, src, sp, draw.Src)\<close>: \<open>r\<close> is clipped to the bounds of \<open>dst\<close> and to
  those of \<open>src\<close> moved so that \<open>sp\<close> lies on the corner of \<open>r\<close>; every point of what is
  left receives the colour of its source point, in the colour model of \<open>dst\<close>.
\<close>

definition Draw :: "'c World \<Rightarrow> 'c Heap \<Rightarrow> nat \<Rightarrow> Rectangle \<Rightarrow> nat \<Rightarrow> Point \<Rightarrow> 'c Heap" where
  "Draw W h dst r src sp =
     (let orig = rMin r;
          r1 = Intersect r (Bounds (h ! dst));
          r2 = Intersect r1 (rectAdd (Bounds (h ! src)) (subPoint orig sp))
      in if rectEmpty r2 then h
         else h[dst := (h ! dst)\<lparr>At := \<lambda>p.
                  if In p r2 then RGBAModel W (At (h ! src) (addPoint sp (subPoint p orig)))
                  else At (h ! dst) p\<rparr>])"

text \<open>Line 164: the rectangle of the raster that tile \<open>(x, y)\<close> is cut from.\<close>

definition cropArea :: "int \<Rightarrow> int \<Rightarrow> int \<Rightarrow> Rectangle" where
  "cropArea tileSize x y =
     Rect (int64 (x * tileSize)) (int64 (y * tileSize))
          (int64 (tileSize + int64 (x * tileSize))) (int64 (tileSize + int64 (y * tileSize)))"

text \<open>Lines 164 to 170: the tile buffer is allocated and filled from the raster \<open>img\<close>.\<close>

definition cropTile :: "'c World \<Rightarrow> 'c Heap \<Rightarrow> nat \<Rightarrow> int \<Rightarrow> int \<Rightarrow> int \<Rightarrow> nat \<times> 'c Heap" where
  "cropTile W h img tileSize x y =
     (let area = cropArea tileSize x y;
          tile = Rect 0 0 tileSize tileSize;
          (dst, h1) = NewRGBA W tile h
      in (dst, Draw W h1 dst tile img (rMin area)))"

text \<open>Line 172: the path of the tile's file.\<close>

definition tilePath :: "'c World \<Rightarrow> Flags \<Rightarrow> int \<Rightarrow> int \<Rightarrow> int \<Rightarrow> string" where
  "tilePath W F level x y = Join W (flagOutDir F) (fileName (flagPattern F) level x y)"

text \<open>
  Lines 173 to 190: the file is created and the tile encoded into it. An error of either
  step is printed with \<^verbatim>\<open>log.Println\<close>; the function returns nothing.
\<close>

definition writeTile :: "'c World \<Rightarrow> Flags \<Rightarrow> Coord \<Rightarrow> string \<Rightarrow> 'i \<Rightarrow> 'i Event list" where
  "writeTile W F c path dst =
     (case createErr W c of
        Some err \<Rightarrow> [CreateCall c path (Some err), LogPrintln err]
      | None \<Rightarrow>
          CreateCall c path None #
          (if flagEncoding F = ''png'' then
             EncodeCall c path dst PNG (encodeErr W c) #
             (case encodeErr W c of Some err \<Rightarrow> [LogPrintln err] | None \<Rightarrow> [])
           else if flagEncoding F = ''jpeg'' then
             EncodeCall c path dst (JPEG (flagJpegQuality F)) (encodeErr W c) #
             (case encodeErr W c of Some err \<Rightarrow> [LogPrintln err] | None \<Rightarrow> [])
           else [LogPrintln ''encoding not supported'']))"

definition Crop ::
  "'c World \<Rightarrow> Flags \<Rightarrow> 'c State \<Rightarrow> nat \<Rightarrow> int \<Rightarrow> int \<Rightarrow> int \<Rightarrow> int \<Rightarrow> 'c State" where
  "Crop W F st img tileSize x y level =
     (let (dst, h) = cropTile W (heap st) img tileSize x y;
          path = tilePath W F level x y
      in \<lparr>heap = h, trace = trace st @ writeTile W F (level, x, y) path (h ! dst)\<rparr>)"

subsection \<open>SplitTiles (main.go, lines 139 to 161)\<close>

text \<open>
  Line 142, \<^verbatim>\<open>1 << uint(level)\<close>: a shift by 64 or more gives 0, a shift by 63 the least
  \<^verbatim>\<open>int\<close>.
\<close>

definition shiftLeft1 :: "int \<Rightarrow> int" where
  "shiftLeft1 level = (if uint64 level < 64 then int64 (2 ^ nat (uint64 level)) else 0)"

text \<open>Line 143: \<^verbatim>\<open>uint(side) * uint(tileSize)\<close>.\<close>

definition levelWidth :: "int \<Rightarrow> int \<Rightarrow> int" where
  "levelWidth tileSize level = uint64 (uint64 (shiftLeft1 level) * uint64 tileSize)"

text \<open>
  The goroutines of a level (one per row) and those of \<^verbatim>\<open>main\<close> (one per level) run
  concurrently and are awaited with a \<^verbatim>\<open>sync.WaitGroup\<close>. They share nothing but the
  raster they read, so the model runs them in one fixed order: levels as \<^verbatim>\<open>main\<close> starts
  them, rows from 0, and in each row the columns from 0. Another schedule permutes the
  trace and the addresses of the buffers, not the events.
\<close>

text \<open>
  Lines 150 to 157: the arguments \<open>(x, row)\<close> of the \<^verbatim>\<open>Crop\<close> calls of one level, row by
  row.
\<close>

definition gridCells :: "int \<Rightarrow> (int \<times> int) list" where
  "gridCells side = concat (map (\<lambda>row. map (\<lambda>x. (x, row)) [0..side - 1]) [0..side - 1])"

definition SplitTiles ::
  "'c World \<Rightarrow> Flags \<Rightarrow> 'c State \<Rightarrow> nat \<Rightarrow> int \<Rightarrow> int \<Rightarrow> InterpolationFunction \<Rightarrow> 'c State" where
  "SplitTiles W F st img tileSize level interp =
     (let side = shiftLeft1 level;
          width = levelWidth tileSize level;
          height = width;
          resized = length (heap st);
          st1 = \<lparr>heap = heap st @ [Resize W width height (heap st ! img) interp],
                 trace = trace st @ [ResizeCall img width height interp]\<rparr>
      in foldl (\<lambda>s (x, row). Crop W F s resized tileSize x row level) st1 (gridCells side))"

subsection \<open>main (main.go, lines 51 to 137)\<close>

definition validEncodings :: "string list" where
  "validEncodings = [''png'', ''jpeg'']"

definition interpFuncs :: "(string \<times> InterpolationFunction) list" where
  "interpFuncs =
     [(''NearestNeighbor'', NearestNeighbor), (''Bilinear'', Bilinear), (''Bicubic'', Bicubic),
      (''MitchellNetravali'', MitchellNetravali), (''Lanczos2'', Lanczos2),
      (''Lanczos3'', Lanczos3)]"

text \<open>
  Line 58, the lookup in the map: for a missing key Go gives the zero value of the
  element type and \<open>False\<close>. \<^verbatim>\<open>resize.InterpolationFunction\<close> is an integer type whose
  constants are numbered from 0 in the order above, so the zero value is
  \<open>NearestNeighbor\<close>.
\<close>

definition lookupInterp :: "string \<Rightarrow> InterpolationFunction \<times> bool" where
  "lookupInterp name =
     (case map_of interpFuncs name of Some f \<Rightarrow> (f, True) | None \<Rightarrow> (NearestNeighbor, False))"

text \<open>
  Lines 52 to 127: the checks and the loading of the source image. The result is either
  the end of the process (\<open>Inl\<close>: status and what was printed) or the decoded image, the
  interpolation function and the level with which the pyramid is built. The names of the
  valid interpolation functions are printed in the order of Go's map iteration, which is
  not fixed; the model prints them in the order of the table.
\<close>

definition main_setup ::
  "'c World \<Rightarrow> Flags \<Rightarrow>
   (Status \<times> 'c Image Event list) + ('c Image \<times> InterpolationFunction \<times> int \<times> 'c Image Event list)"
  where
  "main_setup W F =
     (if flagTileSize F \<le> 0 then Inl (Fatal ''tile size must be a positive integer'', [])
      else
        let (interpFunc, ok) = lookupInterp (flagInterpFunc F);
            out1 = (if \<not> ok
                    then Stderr ''Valid interpolation function parameters:'' #
                         map (\<lambda>fn. Stderr ('' '' @ fn)) (map fst interpFuncs)
                    else [])
        in if flagEncoding F \<notin> set validEncodings
           then Inl (Fatal ''unsupported encoding: [png jpeg]'', out1)
           else if length (args F) \<noteq> 2
           then Inl (Exit0, out1 @ [Stderr ''usage: tiler [1-n] [filename]''])
           else
             let dirResult =
                   (case Stat W (flagOutDir F) of
                      StatNotExist \<Rightarrow>
                        (case MkdirAll W (flagOutDir F) of
                           Some err \<Rightarrow> Inl [MkdirAllCall (flagOutDir F), Stdout err]
                         | None \<Rightarrow> Inr [MkdirAllCall (flagOutDir F)])
                    | StatError err \<Rightarrow> Inl [Stdout err]
                    | StatOk \<Rightarrow> Inr [])
             in case dirResult of
                  Inl out \<Rightarrow> Inl (Exit0, out1 @ out)
                | Inr out \<Rightarrow>
                    let out2 = out1 @ out in
                    (case Open W (args F ! 1) of
                       Some err \<Rightarrow> Inl (Exit0, out2 @ [LogPrintln err])
                     | None \<Rightarrow>
                         let ext = Ext (args F ! 1) in
                         if ext \<noteq> ''.png'' \<and> ext \<noteq> ''.bmp''
                         then Inl (Fatal ''unsupported file format'', out2)
                         else
                           (case (if ext = ''.png'' then pngDecode W (args F ! 1)
                                  else bmpDecode W (args F ! 1)) of
                              Inl err \<Rightarrow> Inl (Exit0, out2 @ [LogPrintln err])
                            | Inr img \<Rightarrow>
                                (case ParseInt (args F ! 0) of
                                   Inl e \<Rightarrow> Inl (Fatal (numErrorText (args F ! 0) e), out2)
                                 | Inr level \<Rightarrow>
                                     if level = 0
                                     then Inl (Fatal ''level must be at least 1'', out2)
                                     else Inr (img, interpFunc, level, out2)))))"

text \<open>
  Lines 129 to 136: one \<^verbatim>\<open>SplitTiles\<close> per level, from \<open>level\<close> down to 0, each on the
  decoded image, which is the buffer at address 0. Then \<^verbatim>\<open>main\<close> returns.
\<close>

definition main :: "'c World \<Rightarrow> Flags \<Rightarrow> Status \<times> 'c State" where
  "main W F =
     (case main_setup W F of
        Inl (status, out) \<Rightarrow> (status, \<lparr>heap = [], trace = out\<rparr>)
      | Inr (img, interpFunc, level, out) \<Rightarrow>
          (Exit0,
           foldl (\<lambda>st i. SplitTiles W F st 0 (flagTileSize F) i interpFunc)
             \<lparr>heap = [img], trace = out\<rparr> (rev [0..level])))"

subsection \<open>Reading a trace\<close>

text \<open>
  The coordinates whose file was asked for, those whose tile was written (created and
  encoded without error), the tile and the encoder that each call of an encoder was
  given, the resampling requests and the lines logged.
\<close>

fun attemptedAt :: "'i Event \<Rightarrow> Coord list" where
  "attemptedAt (CreateCall c path r) = [c]"
| "attemptedAt e = []"

fun writtenAt :: "'i Event \<Rightarrow> Coord list" where
  "writtenAt (EncodeCall c path t enc None) = [c]"
| "writtenAt e = []"

fun writtenPath :: "'i Event \<Rightarrow> string list" where
  "writtenPath (EncodeCall c path t enc None) = [path]"
| "writtenPath e = []"

fun encodedAt :: "'i Event \<Rightarrow> (Coord \<times> 'i) list" where
  "encodedAt (EncodeCall c path t enc r) = [(c, t)]"
| "encodedAt e = []"

fun encoderAt :: "'i Event \<Rightarrow> (Coord \<times> Encoder) list" where
  "encoderAt (EncodeCall c path t enc r) = [(c, enc)]"
| "encoderAt e = []"

fun resizeAt :: "'i Event \<Rightarrow> (nat \<times> int \<times> int \<times> InterpolationFunction) list" where
  "resizeAt (ResizeCall src w h k) = [(src, w, h, k)]"
| "resizeAt e = []"

fun loggedAt :: "'i Event \<Rightarrow> string list" where
  "loggedAt (LogPrintln m) = [m]"
| "loggedAt e = []"

definition tilesAttempted :: "'i Event list \<Rightarrow> Coord list" where
  "tilesAttempted tr = concat (map attemptedAt tr)"

definition tilesWritten :: "'i Event list \<Rightarrow> Coord list" where
  "tilesWritten tr = concat (map writtenAt tr)"

definition pathsWritten :: "'i Event list \<Rightarrow> string list" where
  "pathsWritten tr = concat (map writtenPath tr)"

definition tilesEncoded :: "'i Event list \<Rightarrow> (Coord \<times> 'i) list" where
  "tilesEncoded tr = concat (map encodedAt tr)"

definition encodersUsed :: "'i Event list \<Rightarrow> (Coord \<times> Encoder) list" where
  "encodersUsed tr = concat (map encoderAt tr)"

definition resizeCalls :: "'i Event list \<Rightarrow> (nat \<times> int \<times> int \<times> InterpolationFunction) list" where
  "resizeCalls tr = concat (map resizeAt tr)"

definition logged :: "'i Event list \<Rightarrow> string list" where
  "logged tr = concat (map loggedAt tr)"

subsection \<open>Notions used in the statements\<close>

text \<open>
  A trace without the tiles handed to the encoder, and the events of one level in that
  form: the resampling request, then for every cell of the grid what writing its tile
  adds.
\<close>

definition skeleton :: "'i Event list \<Rightarrow> unit Event list" where
  "skeleton tr = map (map_Event (\<lambda>t. ())) tr"

definition levelEvents ::
  "'c World \<Rightarrow> Flags \<Rightarrow> int \<Rightarrow> InterpolationFunction \<Rightarrow> int \<Rightarrow> unit Event list" where
  "levelEvents W F tileSize interp level =
     ResizeCall 0 (levelWidth tileSize level) (levelWidth tileSize level) interp #
     concat (map (\<lambda>(x, row). writeTile W F (level, x, row) (tilePath W F level x row) ())
               (gridCells (shiftLeft1 level)))"

text \<open>
  The coordinates \<open>(level, x, y)\<close> of the \<^verbatim>\<open>Crop\<close> calls of a whole run with maximum level
  \<open>N\<close>: the loop of \<^verbatim>\<open>main\<close> around the two loops of \<^verbatim>\<open>SplitTiles\<close>.
\<close>

definition pyramidCells :: "int \<Rightarrow> Coord list" where
  "pyramidCells N =
     concat (map (\<lambda>l. map (Pair l) (gridCells (shiftLeft1 l))) (rev [0..N]))"

text \<open>A run without tile errors: no \<^verbatim>\<open>Crop\<close> call sees a failing create or encode.\<close>

definition noTileErrors :: "'c World \<Rightarrow> 'c World" where
  "noTileErrors W = W\<lparr>createErr := \<lambda>c. None, encodeErr := \<lambda>c. None\<rparr>"

text \<open>The error that the \<^verbatim>\<open>Crop\<close> call of a coordinate logs, if any.\<close>

definition tileError :: "'c World \<Rightarrow> Coord \<Rightarrow> string list" where
  "tileError W c =
     (case createErr W c of
        Some err \<Rightarrow> [err]
      | None \<Rightarrow> (case encodeErr W c of Some err \<Rightarrow> [err] | None \<Rightarrow> []))"

text \<open>
  A replacement text that cannot take part in a placeholder: not empty, and without
  braces and without the letters \<open>x\<close> and \<open>y\<close>.
\<close>

definition inert :: "string \<Rightarrow> bool" where
  "inert u = (u \<noteq> [] \<and> set u \<inter> set ''{}xy'' = {})"

definition isDigit :: "char \<Rightarrow> bool" where
  "isDigit c = (c \<in> set ''0123456789'')"

text \<open>
  A file name that is a single path element: not empty, not \<open>.\<close> or \<open>..\<close>, without a
  separator. \<^verbatim>\<open>filepath.Join\<close> keeps such a name as the last element of the path.
\<close>

definition plainName :: "string \<Rightarrow> bool" where
  "plainName s = (s \<noteq> [] \<and> s \<noteq> ''.'' \<and> s \<noteq> ''..'' \<and> CHR ''/'' \<notin> set s)"

text \<open>
  A world and a command line to run the model on: a 2 by 2 source image, a resampler
  that gives every pixel the sum of its coordinates, paths joined with a slash, no
  errors; the flags at their defaults, level 1.
\<close>

definition exampleImage :: "nat Image" where
  "exampleImage = \<lparr>Bounds = Rect 0 0 2 2, At = \<lambda>p. nat (fst p + snd p)\<rparr>"

definition exampleWorld :: "nat World" where
  "exampleWorld =
     \<lparr>Resize = (\<lambda>w h img k. \<lparr>Bounds = Rect 0 0 w h, At = \<lambda>p. nat (fst p + snd p)\<rparr>),
      RGBAModel = (\<lambda>c. c),
      Transparent = 0,
      Join = (\<lambda>dir name. dir @ ''/'' @ name),
      Stat = (\<lambda>dir. StatOk),
      MkdirAll = (\<lambda>dir. None),
      Open = (\<lambda>name. None),
      pngDecode = (\<lambda>name. Inr exampleImage),
      bmpDecode = (\<lambda>name. Inl ''bmp: invalid format''),
      createErr = (\<lambda>c. None),
      encodeErr = (\<lambda>c. None)\<rparr>"

text \<open>
  The same world with deeper colours: a raster holds values of 16 bits, different in
  every pixel of a small raster, and the RGBA model of a tile keeps the high byte.
\<close>

definition exampleWorld16 :: "nat World" where
  "exampleWorld16 =
     exampleWorld
       \<lparr>Resize := (\<lambda>w h img k.
          \<lparr>Bounds = Rect 0 0 w h, At = \<lambda>p. nat (4096 * fst p + 256 * snd p + 17)\<rparr>),
        RGBAModel := (\<lambda>c. c div 256)\<rparr>"

definition exampleFlags :: Flags where
  "exampleFlags =
     \<lparr>flagTileSize = 256, flagJpegQuality = 5, flagEncoding = ''png'',
      flagPattern = ''{zoom}_{x}_{y}.png'', flagInterpFunc = ''Bicubic'',
      flagOutDir = ''tiles'', args = [''1'', ''source.png'']\<rparr>"

section \<open>Properties\<close>

lemma replaceFrom_skip:
  "n \<noteq> 0 \<Longrightarrow> old \<noteq> [] \<Longrightarrow> hd old \<notin> set u \<Longrightarrow>
   replaceFrom n old new (u @ t) = u @ replaceFrom n old new t"
proof (induction u)
  case Nil
  then show ?case by simp
next
  case (Cons a u)
  from Cons.prems obtain b bs where old: "old = b # bs" and "b \<noteq> a"
    by (cases old) auto
  then have "\<not> prefix old (a # u @ t)" by simp
  with Cons show ?case by simp
qed

lemma replaceFrom_hit:
  "n \<noteq> 0 \<Longrightarrow> old \<noteq> [] \<Longrightarrow>
   replaceFrom n old new (old @ t) = new @ replaceFrom (n - 1) old new t"
  by (cases old) auto

lemma replaceFrom_head:
  assumes "replaceFrom n old new s = a # t" "n \<noteq> 0" "new \<noteq> []" "a \<notin> set new"
  shows "\<exists>s'. s = a # s' \<and> t = replaceFrom n old new s'"
proof (cases s)
  case Nil
  with assms show ?thesis by simp
next
  case (Cons b s')
  show ?thesis
  proof (cases "old \<noteq> [] \<and> prefix old (b # s')")
    case True
    with assms Cons have "new @ replaceFrom (n - 1) old new (drop (length old) (b # s')) = a # t"
      by simp
    with assms(3) have "hd new = a" by (cases new) auto
    with assms(3,4) show ?thesis by (cases new) auto
  next
    case False
    with assms Cons show ?thesis by auto
  qed
qed


lemma replaceFrom_prefix2:
  assumes "prefix [b, c] (replaceFrom n old new s)" "n \<noteq> 0" "new \<noteq> []"
    "b \<notin> set new" "c \<notin> set new"
  shows "prefix [b, c] s"
proof -
  from assms(1) obtain t where t: "replaceFrom n old new s = b # c # t"
    by (auto simp: prefix_def)
  from replaceFrom_head [OF t assms(2,3,4)] obtain s' where
    s': "s = b # s'" "c # t = replaceFrom n old new s'" by blast
  from replaceFrom_head [OF s'(2) [symmetric] assms(2,3,5)] obtain s'' where
    "s' = c # s''" by blast
  with s' show ?thesis by simp
qed

lemma sequential_is_simultaneous:
  shows "inert zs \<Longrightarrow> inert xs \<Longrightarrow> nz < 0 \<Longrightarrow> nx < 0 \<Longrightarrow> ny < 0 \<Longrightarrow>
    replaceFrom ny ''{y}'' ys (replaceFrom nx ''{x}'' xs (replaceFrom nz ''{zoom}'' zs p)) =
    substituteSpec zs xs ys p"
proof (induction zs xs ys p arbitrary: nz nx ny rule: substituteSpec.induct)
  case (1 zs xs ys)
  then show ?case by simp
next
  case (2 zs xs ys c cs)
  have zs: "zs \<noteq> []" "CHR ''{'' \<notin> set zs" "CHR ''}'' \<notin> set zs"
      "CHR ''x'' \<notin> set zs" "CHR ''y'' \<notin> set zs"
    and xs: "xs \<noteq> []" "CHR ''{'' \<notin> set xs" "CHR ''}'' \<notin> set xs" "CHR ''y'' \<notin> set xs"
    using "2.prems"(1,2) by (auto simp: inert_def)
  have n0: "nz \<noteq> 0" "nx \<noteq> 0" "ny \<noteq> 0" using "2.prems" by auto
  consider (zoom) "prefix ''{zoom}'' (c # cs)"
    | (x) "\<not> prefix ''{zoom}'' (c # cs)" "prefix ''{x}'' (c # cs)"
    | (y) "\<not> prefix ''{zoom}'' (c # cs)" "\<not> prefix ''{x}'' (c # cs)" "prefix ''{y}'' (c # cs)"
    | (none) "\<not> prefix ''{zoom}'' (c # cs)" "\<not> prefix ''{x}'' (c # cs)"
        "\<not> prefix ''{y}'' (c # cs)"
    by blast
  then show ?case
  proof cases
    case zoom
    then obtain p' where p': "c # cs = ''{zoom}'' @ p'" by (auto simp: prefix_def)
    then have d: "drop 6 (c # cs) = p'" by simp
    have "nz - 1 < 0" using "2.prems" by simp
    from "2.IH"(1) [OF zoom "2.prems"(1,2) this "2.prems"(4,5)]
    have IH: "replaceFrom ny ''{y}'' ys (replaceFrom nx ''{x}'' xs
        (replaceFrom (nz - 1) ''{zoom}'' zs p')) = substituteSpec zs xs ys p'"
      by (simp only: d)
    have "replaceFrom nz ''{zoom}'' zs (c # cs) = zs @ replaceFrom (nz - 1) ''{zoom}'' zs p'"
      unfolding p' using n0 by (intro replaceFrom_hit) simp_all
    moreover have "replaceFrom nx ''{x}'' xs (zs @ t) = zs @ replaceFrom nx ''{x}'' xs t" for t
      using n0 zs by (intro replaceFrom_skip) simp_all
    moreover have "replaceFrom ny ''{y}'' ys (zs @ t) = zs @ replaceFrom ny ''{y}'' ys t" for t
      using n0 zs by (intro replaceFrom_skip) simp_all
    moreover have "substituteSpec zs xs ys (c # cs) = zs @ substituteSpec zs xs ys p'"
      using zoom d by simp
    ultimately show ?thesis using IH by simp
  next
    case x
    then obtain p' where p': "c # cs = ''{x}'' @ p'" by (auto simp: prefix_def)
    then have d: "drop 3 (c # cs) = p'" by simp
    have "nx - 1 < 0" using "2.prems" by simp
    from "2.IH"(2) [OF x "2.prems"(1,2,3) this "2.prems"(5)]
    have IH: "replaceFrom ny ''{y}'' ys (replaceFrom (nx - 1) ''{x}'' xs
        (replaceFrom nz ''{zoom}'' zs p')) = substituteSpec zs xs ys p'"
      by (simp only: d)
    have "replaceFrom nz ''{zoom}'' zs (c # cs) = ''{x}'' @ replaceFrom nz ''{zoom}'' zs p'"
      unfolding p' using n0 by simp
    moreover have "replaceFrom nx ''{x}'' xs (''{x}'' @ t) = xs @ replaceFrom (nx - 1) ''{x}'' xs t" for t
      using n0 by (intro replaceFrom_hit) simp_all
    moreover have "replaceFrom ny ''{y}'' ys (xs @ t) = xs @ replaceFrom ny ''{y}'' ys t" for t
      using n0 xs by (intro replaceFrom_skip) simp_all
    moreover have "substituteSpec zs xs ys (c # cs) = xs @ substituteSpec zs xs ys p'"
      using x d by simp
    ultimately show ?thesis using IH by simp
  next
    case y
    then obtain p' where p': "c # cs = ''{y}'' @ p'" by (auto simp: prefix_def)
    then have d: "drop 3 (c # cs) = p'" by simp
    have "ny - 1 < 0" using "2.prems" by simp
    from "2.IH"(3) [OF y "2.prems"(1,2,3,4) this]
    have IH: "replaceFrom (ny - 1) ''{y}'' ys (replaceFrom nx ''{x}'' xs
        (replaceFrom nz ''{zoom}'' zs p')) = substituteSpec zs xs ys p'"
      by (simp only: d)
    have "replaceFrom nz ''{zoom}'' zs (c # cs) = ''{y}'' @ replaceFrom nz ''{zoom}'' zs p'"
      unfolding p' using n0 by simp
    moreover have "replaceFrom nx ''{x}'' xs (''{y}'' @ t) = ''{y}'' @ replaceFrom nx ''{x}'' xs t" for t
      using n0 by simp
    moreover have "replaceFrom ny ''{y}'' ys (''{y}'' @ t) = ys @ replaceFrom (ny - 1) ''{y}'' ys t" for t
      using n0 by (intro replaceFrom_hit) simp_all
    moreover have "substituteSpec zs xs ys (c # cs) = ys @ substituteSpec zs xs ys p'"
      using y d by simp
    ultimately show ?thesis using IH by simp
  next
    case none
    from "2.IH"(4) [OF none "2.prems"]
    have IH: "replaceFrom ny ''{y}'' ys (replaceFrom nx ''{x}'' xs
        (replaceFrom nz ''{zoom}'' zs cs)) = substituteSpec zs xs ys cs" .
    let ?rz = "replaceFrom nz ''{zoom}'' zs cs"
    let ?rx = "replaceFrom nx ''{x}'' xs ?rz"
    have 1: "replaceFrom nz ''{zoom}'' zs (c # cs) = c # ?rz"
      using none(1) n0(1) by (simp only: replaceFrom.simps simp_thms if_False)
    have "\<not> prefix ''{x}'' (c # ?rz)"
    proof
      assume "prefix ''{x}'' (c # ?rz)"
      then have "CHR ''{'' = c \<and> prefix ''x}'' ?rz" unfolding Cons_prefix_Cons .
      then have c: "c = CHR ''{''" and r: "prefix ''x}'' ?rz" by blast+
      from replaceFrom_prefix2 [OF r n0(1) zs(1,4,3)] none(2) show False
        unfolding c by (simp only: Cons_prefix_Cons simp_thms)
    qed
    then have 2: "replaceFrom nx ''{x}'' xs (c # ?rz) = c # ?rx"
      using n0(2) by (simp only: replaceFrom.simps simp_thms if_False)
    have "\<not> prefix ''{y}'' (c # ?rx)"
    proof
      assume "prefix ''{y}'' (c # ?rx)"
      then have "CHR ''{'' = c \<and> prefix ''y}'' ?rx" unfolding Cons_prefix_Cons .
      then have c: "c = CHR ''{''" and r: "prefix ''y}'' ?rx" by blast+
      from replaceFrom_prefix2 [OF r n0(2) xs(1,4,3)] have "prefix ''y}'' ?rz" .
      from replaceFrom_prefix2 [OF this n0(1) zs(1,5,3)] none(3) show False
        unfolding c by (simp only: Cons_prefix_Cons simp_thms)
    qed
    then have 3: "replaceFrom ny ''{y}'' ys (c # ?rx) = c # replaceFrom ny ''{y}'' ys ?rx"
      using n0(3) by (simp only: replaceFrom.simps simp_thms if_False)
    show ?thesis using none IH by (simp only: 1 2 3 substituteSpec.simps if_False)
  qed
qed

lemma digit_isDigit: "d < 10 \<Longrightarrow> isDigit (digit d)"
proof -
  assume "d < 10"
  then have "d \<in> {0,1,2,3,4,5,6,7,8,9}" by auto
  then show ?thesis by (auto simp: digit_def isDigit_def)
qed

lemma digit_inj: "d < 10 \<Longrightarrow> e < 10 \<Longrightarrow> digit d = digit e \<Longrightarrow> d = e"
proof -
  assume "d < 10" "e < 10" and eq: "digit d = digit e"
  then have "d \<in> {0,1,2,3,4,5,6,7,8,9}" "e \<in> {0,1,2,3,4,5,6,7,8,9}" by auto
  with eq show ?thesis by (auto simp: digit_def)
qed

lemma decimal_nonempty: "decimal n \<noteq> []"
  by (subst decimal.simps) simp

lemma decimal_digits: "c \<in> set (decimal n) \<Longrightarrow> isDigit c"
proof (induction n arbitrary: c rule: decimal.induct)
  case (1 n)
  show ?case
  proof (cases "n < 10")
    case True
    with "1.prems" show ?thesis by (subst (asm) decimal.simps) (simp add: digit_isDigit)
  next
    case False
    with "1.prems" have "c \<in> set (decimal (n div 10)) \<or> c = digit (n mod 10)"
      by (subst (asm) decimal.simps) auto
    with "1.IH" False show ?thesis by (auto simp: digit_isDigit)
  qed
qed

lemma decimal_inj: "decimal n = decimal m \<Longrightarrow> n = m"
proof (induction n arbitrary: m rule: decimal.induct)
  case (1 n)
  show ?case
  proof (cases "n < 10")
    case n: True
    show ?thesis
    proof (cases "m < 10")
      case True
      with n "1.prems" show ?thesis
        by (subst (asm) decimal.simps, subst (asm) (2) decimal.simps) (simp add: digit_inj)
    next
      case False
      have "decimal m = decimal (m div 10) @ [digit (m mod 10)]"
        using False by (subst decimal.simps) simp
      moreover have "decimal n = [digit n]" using n by (subst decimal.simps) simp
      ultimately show ?thesis using "1.prems" decimal_nonempty [of "m div 10"] by simp
    qed
  next
    case n: False
    have dn: "decimal n = decimal (n div 10) @ [digit (n mod 10)]"
      using n by (subst decimal.simps) simp
    show ?thesis
    proof (cases "m < 10")
      case True
      then have "decimal m = [digit m]" by (subst decimal.simps) simp
      with dn "1.prems" decimal_nonempty [of "n div 10"] show ?thesis by simp
    next
      case False
      then have "decimal m = decimal (m div 10) @ [digit (m mod 10)]"
        by (subst decimal.simps) simp
      with dn "1.prems" have a: "decimal (n div 10) = decimal (m div 10)"
        and b: "digit (n mod 10) = digit (m mod 10)" by simp_all
      from "1.IH" [OF n a] have "n div 10 = m div 10" .
      moreover from b have "n mod 10 = m mod 10" by (intro digit_inj) simp_all
      ultimately show ?thesis by (metis div_mult_mod_eq)
    qed
  qed
qed

lemma isDigit_not_special:
  "isDigit c \<Longrightarrow> c \<noteq> CHR ''{'' \<and> c \<noteq> CHR ''}'' \<and> c \<noteq> CHR ''x'' \<and> c \<noteq> CHR ''y'' \<and> c \<noteq> CHR ''-'' \<and> c \<noteq> CHR ''/'' \<and> c \<noteq> CHR ''.''"
  by (auto simp: isDigit_def)

lemma inert_Itoa: "inert (Itoa i)"
  using decimal_digits isDigit_not_special
  by (fastforce simp: inert_def Itoa_def decimal_nonempty)

lemma fileName_substitute:
  "fileName p zoom x y = substituteSpec (Itoa zoom) (Itoa x) (Itoa y) p"
  unfolding fileName_def Replace_def Let_def
  by (rule sequential_is_simultaneous) (simp_all add: inert_Itoa)

lemma substituteSpec_no_placeholder:
  "\<not> sublist ''{zoom}'' p \<Longrightarrow> \<not> sublist ''{x}'' p \<Longrightarrow> \<not> sublist ''{y}'' p \<Longrightarrow>
   substituteSpec zs xs ys p = p"
proof (induction p)
  case Nil
  then show ?case by simp
next
  case (Cons c cs)
  have split: "sublist w (c # cs) = (prefix w (c # cs) \<or> sublist w cs)" for w :: string
    by (rule sublist_Cons_right)
  from Cons.prems(1) have z: "\<not> prefix ''{zoom}'' (c # cs)" "\<not> sublist ''{zoom}'' cs"
    unfolding split [of "''{zoom}''"] by blast+
  from Cons.prems(2) have x: "\<not> prefix ''{x}'' (c # cs)" "\<not> sublist ''{x}'' cs"
    unfolding split [of "''{x}''"] by blast+
  from Cons.prems(3) have y: "\<not> prefix ''{y}'' (c # cs)" "\<not> sublist ''{y}'' cs"
    unfolding split [of "''{y}''"] by blast+
  from Cons.IH [OF z(2) x(2) y(2)] have IH: "substituteSpec zs xs ys cs = cs" .
  have "substituteSpec zs xs ys (c # cs) = c # substituteSpec zs xs ys cs"
    using z(1) x(1) y(1) by (simp only: substituteSpec.simps if_False)
  with IH show ?case by (simp only:)
qed

text \<open>
  C7. For every pattern and every coordinate, \<open>fileName\<close> is the literal substitution of
  the three placeholders by the decimal texts of level, x and y, all other text staying
  as it is; the pattern \<open>{zoom}_{x}_{y}.png\<close> at level 2, x 3, y 1 gives \<open>2_3_1.png\<close>; and
  a pattern in which no placeholder occurs is the file name of every tile.
\<close>

theorem C7_fileName_literal_substitution:
  "fileName p zoom x y = substituteSpec (Itoa zoom) (Itoa x) (Itoa y) p \<and>
   fileName ''{zoom}_{x}_{y}.png'' 2 3 1 = ''2_3_1.png'' \<and>
   (\<not> sublist ''{zoom}'' p \<and> \<not> sublist ''{x}'' p \<and> \<not> sublist ''{y}'' p \<longrightarrow>
      fileName p zoom x y = p)"
proof (intro conjI impI)
  show "fileName p zoom x y = substituteSpec (Itoa zoom) (Itoa x) (Itoa y) p"
    by (rule fileName_substitute)
  show "fileName ''{zoom}_{x}_{y}.png'' 2 3 1 = ''2_3_1.png''"
    by code_simp
  show "fileName p zoom x y = p"
    if "\<not> sublist ''{zoom}'' p \<and> \<not> sublist ''{x}'' p \<and> \<not> sublist ''{y}'' p"
    using that by (simp add: fileName_substitute substituteSpec_no_placeholder)
qed

theorem C7_fileName_witness:
  "\<not> sublist ''{zoom}'' ''tile{z}.png'' \<and> \<not> sublist ''{x}'' ''tile{z}.png'' \<and>
   \<not> sublist ''{y}'' ''tile{z}.png'' \<and>
   fileName ''tile{z}.png'' 1 0 1 = ''tile{z}.png'' \<and>
   fileName ''tile{z}.png'' 0 0 0 = ''tile{z}.png''"
proof -
  have n: "\<not> sublist ''{zoom}'' ''tile{z}.png'' \<and> \<not> sublist ''{x}'' ''tile{z}.png'' \<and>
      \<not> sublist ''{y}'' ''tile{z}.png''"
    by code_simp
  from n C7_fileName_literal_substitution [of "''tile{z}.png''" 1 0 1]
  have "fileName ''tile{z}.png'' 1 0 1 = ''tile{z}.png''" by blast
  moreover from n C7_fileName_literal_substitution [of "''tile{z}.png''" 0 0 0]
  have "fileName ''tile{z}.png'' 0 0 0 = ''tile{z}.png''" by blast
  ultimately show ?thesis using n by blast
qed

lemma substituteSpec_plain:
  "CHR ''{'' \<notin> set a \<Longrightarrow> substituteSpec zs xs ys (a @ t) = a @ substituteSpec zs xs ys t"
proof (induction a)
  case Nil
  then show ?case by simp
next
  case (Cons c a)
  then have c: "CHR ''{'' \<noteq> c" and a: "CHR ''{'' \<notin> set a" by auto
  have "substituteSpec zs xs ys (c # (a @ t)) = c # substituteSpec zs xs ys (a @ t)"
    using c by (simp only: substituteSpec.simps Cons_prefix_Cons simp_thms if_False)
  with Cons.IH [OF a] show ?case by simp
qed

lemma substituteSpec_placeholders:
  "substituteSpec zs xs ys (''{zoom}'' @ t) = zs @ substituteSpec zs xs ys t"
  "substituteSpec zs xs ys (''{x}'' @ t) = xs @ substituteSpec zs xs ys t"
  "substituteSpec zs xs ys (''{y}'' @ t) = ys @ substituteSpec zs xs ys t"
  by simp_all

lemma fileName_form:
  assumes "CHR ''{'' \<notin> set (a @ b @ c @ d)"
  shows "fileName (a @ ''{zoom}'' @ b @ ''{x}'' @ c @ ''{y}'' @ d) l x y =
         a @ Itoa l @ b @ Itoa x @ c @ Itoa y @ d"
proof -
  from assms have n: "CHR ''{'' \<notin> set a" "CHR ''{'' \<notin> set b" "CHR ''{'' \<notin> set c"
    "CHR ''{'' \<notin> set d" by auto
  have d: "substituteSpec zs xs ys d = d" for zs xs ys
    using substituteSpec_plain [OF n(4), of zs xs ys "[]"] by simp
  show ?thesis
    unfolding fileName_substitute
    by (simp only: substituteSpec_plain [OF n(1)] substituteSpec_plain [OF n(2)]
        substituteSpec_plain [OF n(3)] substituteSpec_placeholders d)
qed

lemma split_digits:
  assumes "\<forall>ch \<in> set u. isDigit ch" "\<forall>ch \<in> set v. isDigit ch"
    "w \<noteq> []" "\<not> isDigit (hd w)" "w' \<noteq> []" "\<not> isDigit (hd w')" "u @ w = v @ w'"
  shows "u = v \<and> w = w'"
proof -
  have "takeWhile isDigit (u @ w) = u"
    using assms(1,3,4) by (cases w) (simp_all add: takeWhile_append2)
  moreover have "takeWhile isDigit (v @ w') = v"
    using assms(2,5,6) by (cases w') (simp_all add: takeWhile_append2)
  ultimately have "u = v" using assms(7) by simp
  with assms(7) show ?thesis by simp
qed

lemma Itoa_nat_digits: "0 \<le> i \<Longrightarrow> \<forall>ch \<in> set (Itoa i). isDigit ch"
  by (auto simp: Itoa_def dest: decimal_digits)

lemma Itoa_nat_inj: "0 \<le> i \<Longrightarrow> 0 \<le> j \<Longrightarrow> Itoa i = Itoa j \<Longrightarrow> i = j"
  using decimal_inj [of "nat i" "nat j"] by (simp add: Itoa_def)

lemma Itoa_nonempty: "Itoa i \<noteq> []"
  by (simp add: Itoa_def decimal_nonempty)

lemma names_injective:
  assumes b: "b \<noteq> []" "\<not> isDigit (hd b)" and c: "c \<noteq> []" "\<not> isDigit (hd c)"
    and nn: "0 \<le> l" "0 \<le> x" "0 \<le> y" "0 \<le> l'" "0 \<le> x'" "0 \<le> y'"
    and eq: "a @ Itoa l @ b @ Itoa x @ c @ Itoa y @ d = a @ Itoa l' @ b @ Itoa x' @ c @ Itoa y' @ d"
  shows "l = l' \<and> x = x' \<and> y = y'"
proof -
  have hdb: "b @ t \<noteq> []" "hd (b @ t) = hd b" for t using b(1) by simp_all
  have hdc: "c @ t \<noteq> []" "hd (c @ t) = hd c" for t using c(1) by simp_all
  from eq have 1: "Itoa l @ (b @ Itoa x @ c @ Itoa y @ d) = Itoa l' @ (b @ Itoa x' @ c @ Itoa y' @ d)"
    by (simp only: same_append_eq)
  have "Itoa l = Itoa l' \<and> b @ Itoa x @ c @ Itoa y @ d = b @ Itoa x' @ c @ Itoa y' @ d"
  proof (rule split_digits [OF Itoa_nat_digits [OF nn(1)] Itoa_nat_digits [OF nn(4)] _ _ _ _ 1])
    show "b @ Itoa x @ c @ Itoa y @ d \<noteq> []" by (rule hdb)
    show "\<not> isDigit (hd (b @ Itoa x @ c @ Itoa y @ d))" unfolding hdb(2) by (rule b(2))
    show "b @ Itoa x' @ c @ Itoa y' @ d \<noteq> []" by (rule hdb)
    show "\<not> isDigit (hd (b @ Itoa x' @ c @ Itoa y' @ d))" unfolding hdb(2) by (rule b(2))
  qed
  then have l: "Itoa l = Itoa l'"
    and 2: "Itoa x @ (c @ Itoa y @ d) = Itoa x' @ (c @ Itoa y' @ d)"
    by (simp_all only: same_append_eq)
  have "Itoa x = Itoa x' \<and> c @ Itoa y @ d = c @ Itoa y' @ d"
  proof (rule split_digits [OF Itoa_nat_digits [OF nn(2)] Itoa_nat_digits [OF nn(5)] _ _ _ _ 2])
    show "c @ Itoa y @ d \<noteq> []" by (rule hdc)
    show "\<not> isDigit (hd (c @ Itoa y @ d))" unfolding hdc(2) by (rule c(2))
    show "c @ Itoa y' @ d \<noteq> []" by (rule hdc)
    show "\<not> isDigit (hd (c @ Itoa y' @ d))" unfolding hdc(2) by (rule c(2))
  qed
  then have x: "Itoa x = Itoa x'" and y: "Itoa y = Itoa y'"
    by (simp_all only: same_append_eq append_same_eq)
  from Itoa_nat_inj [OF nn(1,4) l] Itoa_nat_inj [OF nn(2,5) x] Itoa_nat_inj [OF nn(3,6) y]
  show ?thesis by blast
qed

lemma names_plain:
  assumes "CHR ''/'' \<notin> set (a @ b @ c @ d)" "0 \<le> l" "0 \<le> x" "0 \<le> y"
  shows "plainName (a @ Itoa l @ b @ Itoa x @ c @ Itoa y @ d)"
proof -
  let ?n = "a @ Itoa l @ b @ Itoa x @ c @ Itoa y @ d"
  have noslash: "CHR ''/'' \<notin> set (Itoa i)" if "0 \<le> i" for i
    using Itoa_nat_digits [OF that] isDigit_not_special by blast
  obtain ch where ch: "ch \<in> set (Itoa l)" using Itoa_nonempty [of l] by (cases "Itoa l") auto
  with assms(2) have "isDigit ch" using Itoa_nat_digits by blast
  then have dot: "ch \<noteq> CHR ''.''" using isDigit_not_special by blast
  have in_n: "ch \<in> set ?n" using ch by simp
  have 1: "?n \<noteq> []" using Itoa_nonempty [of l] by simp
  have 2: "?n \<noteq> ''.''"
  proof
    assume "?n = ''.''"
    with in_n have "ch \<in> set ''.''" by (simp only:)
    with dot show False by simp
  qed
  have 3: "?n \<noteq> ''..''"
  proof
    assume "?n = ''..''"
    with in_n have "ch \<in> set ''..''" by (simp only:)
    with dot show False by simp
  qed
  have 4: "CHR ''/'' \<notin> set ?n"
    using assms(1) noslash [OF assms(2)] noslash [OF assms(3)] noslash [OF assms(4)] by simp
  from 1 2 3 4 show ?thesis unfolding plainName_def by blast
qed

lemma fileName_inj:
  assumes "p = a @ ''{zoom}'' @ b @ ''{x}'' @ c @ ''{y}'' @ d"
    and "CHR ''{'' \<notin> set (a @ b @ c @ d)"
    and "b \<noteq> []" "\<not> isDigit (hd b)" and "c \<noteq> []" "\<not> isDigit (hd c)"
    and "0 \<le> l" "0 \<le> x" "0 \<le> y" "0 \<le> l'" "0 \<le> x'" "0 \<le> y'"
    and "fileName p l x y = fileName p l' x' y'"
  shows "(l, x, y) = (l', x', y')"
proof -
  have f: "fileName p l x y = a @ Itoa l @ b @ Itoa x @ c @ Itoa y @ d"
    "fileName p l' x' y' = a @ Itoa l' @ b @ Itoa x' @ c @ Itoa y' @ d"
    unfolding assms(1) using assms(2) by (rule fileName_form)+
  from assms(13) have "a @ Itoa l @ b @ Itoa x @ c @ Itoa y @ d =
      a @ Itoa l' @ b @ Itoa x' @ c @ Itoa y' @ d" unfolding f .
  from names_injective [OF assms(3-12) this] show ?thesis by simp
qed

lemma fileName_plain:
  assumes "p = a @ ''{zoom}'' @ b @ ''{x}'' @ c @ ''{y}'' @ d"
    and "CHR ''{'' \<notin> set (a @ b @ c @ d)" and "CHR ''/'' \<notin> set (a @ b @ c @ d)"
    and "0 \<le> l" "0 \<le> x" "0 \<le> y"
  shows "plainName (fileName p l x y)"
proof -
  have "fileName p l x y = a @ Itoa l @ b @ Itoa x @ c @ Itoa y @ d"
    unfolding assms(1) using assms(2) by (rule fileName_form)
  with names_plain [OF assms(3-6)] show ?thesis by simp
qed

text \<open>
  C9, as stated, fails: with a pattern that holds no placeholder, such as \<open>tile.png\<close>, the
  tiles \<open>(0, 0, 0)\<close> and \<open>(1, 0, 0)\<close> of one run are written to the same path.
\<close>

theorem C9_same_path_counterexample:
  "tilePath exampleWorld (exampleFlags\<lparr>flagPattern := ''tile.png''\<rparr>) 0 0 0 =
   tilePath exampleWorld (exampleFlags\<lparr>flagPattern := ''tile.png''\<rparr>) 1 0 0 \<and>
   ((0, 0, 0) :: Coord) \<noteq> (1, 0, 0)"
  by (simp add: tilePath_def exampleFlags_def fileName_def Replace_def)

text \<open>
  C9, amended. Let the name pattern be \<open>a{zoom}b{x}c{y}d\<close>, where the texts \<open>a\<close>, \<open>b\<close>, \<open>c\<close>
  and \<open>d\<close> hold no opening brace and no path separator and \<open>b\<close> and \<open>c\<close> start with a
  character that is not a digit (the default pattern \<open>{zoom}_{x}_{y}.png\<close> is of this
  form), and let \<^verbatim>\<open>filepath.Join\<close> map distinct single-element names in the output
  directory to distinct paths. Then two tile coordinates with non-negative components
  have the same output path only if they are equal.
\<close>

theorem C9_distinct_paths:
  assumes "flagPattern F = a @ ''{zoom}'' @ b @ ''{x}'' @ c @ ''{y}'' @ d"
    and "CHR ''{'' \<notin> set (a @ b @ c @ d)" and "CHR ''/'' \<notin> set (a @ b @ c @ d)"
    and "b \<noteq> []" "\<not> isDigit (hd b)" and "c \<noteq> []" "\<not> isDigit (hd c)"
    and "0 \<le> l" "0 \<le> x" "0 \<le> y" "0 \<le> l'" "0 \<le> x'" "0 \<le> y'"
    and "inj_on (Join W (flagOutDir F)) {n. plainName n}"
  shows "(tilePath W F l x y = tilePath W F l' x' y') = ((l, x, y) = (l', x', y'))"
proof
  assume eq: "tilePath W F l x y = tilePath W F l' x' y'"
  have "plainName (fileName (flagPattern F) l x y)"
    using assms(1,2,3,8,9,10) by (rule fileName_plain)
  moreover have "plainName (fileName (flagPattern F) l' x' y')"
    using assms(1,2,3,11,12,13) by (rule fileName_plain)
  ultimately have "fileName (flagPattern F) l x y = fileName (flagPattern F) l' x' y'"
    using eq assms(14) unfolding tilePath_def by (auto dest: inj_onD)
  with assms(1,2,4-13) show "(l, x, y) = (l', x', y')" by (rule fileName_inj)
next
  assume "(l, x, y) = (l', x', y')"
  then show "tilePath W F l x y = tilePath W F l' x' y'" by simp
qed

theorem C9_distinct_paths_witness:
  "flagPattern exampleFlags = [] @ ''{zoom}'' @ ''_'' @ ''{x}'' @ ''_'' @ ''{y}'' @ ''.png'' \<and>
   inj_on (Join exampleWorld (flagOutDir exampleFlags)) {n. plainName n} \<and>
   tilePath exampleWorld exampleFlags 1 0 1 \<noteq> tilePath exampleWorld exampleFlags 1 1 0 \<and>
   tilePath exampleWorld exampleFlags 1 0 1 = ''tiles/1_0_1.png''"
proof -
  have p: "flagPattern exampleFlags = [] @ ''{zoom}'' @ ''_'' @ ''{x}'' @ ''_'' @ ''{y}'' @ ''.png''"
    by (simp add: exampleFlags_def)
  have j: "inj_on (Join exampleWorld (flagOutDir exampleFlags)) {n. plainName n}"
    by (simp add: exampleWorld_def inj_on_def)
  have "(tilePath exampleWorld exampleFlags 1 0 1 = tilePath exampleWorld exampleFlags 1 1 0) =
        (((1, 0, 1) :: Coord) = (1, 1, 0))"
    by (rule C9_distinct_paths [OF p _ _ _ _ _ _ _ _ _ _ _ _ j]) (simp_all add: isDigit_def)
  then have "tilePath exampleWorld exampleFlags 1 0 1 \<noteq> tilePath exampleWorld exampleFlags 1 1 0"
    by simp
  moreover have "tilePath exampleWorld exampleFlags 1 0 1 = ''tiles/1_0_1.png''"
    by (simp add: tilePath_def exampleWorld_def exampleFlags_def fileName_form [of "[]" "''_''" "''_''" "''.png''", simplified])
       code_simp
  ultimately show ?thesis using p j by blast
qed

lemma int64_id: "- (2 ^ 63) \<le> n \<Longrightarrow> n < 2 ^ 63 \<Longrightarrow> int64 n = n"
  by (simp add: int64_def)

lemma Rect_ordered:
  "x0 \<le> x1 \<Longrightarrow> y0 \<le> y1 \<Longrightarrow> Rect x0 y0 x1 y1 = \<lparr>rMin = (x0, y0), rMax = (x1, y1)\<rparr>"
  by (simp add: Rect_def)

lemma In_rect:
  "In (px, py) \<lparr>rMin = (x0, y0), rMax = (x1, y1)\<rparr> = (x0 \<le> px \<and> px < x1 \<and> y0 \<le> py \<and> py < y1)"
  by (simp add: In_def)

text \<open>
  Inside a raster of \<open>side * tileSize\<close> pixels, the products of line 164 stay in the range
  of \<^verbatim>\<open>int\<close>.
\<close>

lemma cell_bounds:
  fixes T x side :: int
  assumes "0 < T" "0 \<le> x" "x < side" "side * T < 2 ^ 63"
  shows "0 \<le> x * T" "x * T + T \<le> side * T" "x * T < 2 ^ 63" "T + x * T < 2 ^ 63" "T < 2 ^ 63"
proof -
  show 0: "0 \<le> x * T" using assms by simp
  have "(x + 1) * T \<le> side * T" using assms by (intro mult_right_mono) simp_all
  then show 1: "x * T + T \<le> side * T" by (simp add: algebra_simps)
  from 1 assms(4) show "x * T < 2 ^ 63" "T + x * T < 2 ^ 63" using assms(1) by simp_all
  from 0 1 assms(4) show "T < 2 ^ 63" by simp
qed

lemma cropArea_eq:
  assumes "0 < T" "0 \<le> x" "x < side" "0 \<le> y" "y < side" "side * T < 2 ^ 63"
  shows "cropArea T x y = \<lparr>rMin = (x * T, y * T), rMax = (x * T + T, y * T + T)\<rparr>"
proof -
  note bx = cell_bounds [OF assms(1,2,3,6)] and bounds_y = cell_bounds [OF assms(1,4,5,6)]
  have "int64 (x * T) = x * T" "int64 (y * T) = y * T"
    using bx bounds_y by (simp_all add: int64_id)
  moreover have "int64 (T + x * T) = x * T + T" "int64 (T + y * T) = y * T + T"
    using bx bounds_y assms(1) by (simp_all add: int64_id)
  ultimately show ?thesis
    unfolding cropArea_def using assms(1) by (simp add: Rect_def)
qed

lemma tile_point:
  fixes T a b i j :: int
  assumes "0 \<le> a" "a + T < 2 ^ 63" "0 \<le> b" "b + T < 2 ^ 63" "0 \<le> i" "i < T" "0 \<le> j" "j < T"
  shows "addPoint (a, b) (subPoint (i, j) (0, 0)) = (a + i, b + j)"
  using assms by (simp add: addPoint_def subPoint_def int64_id)

lemma cropTile_result:
  fixes T x y side :: int
  assumes img: "img < length h"
    and bounds: "Bounds (h ! img) = Rect 0 0 (side * T) (side * T)"
    and T: "0 < T" and x: "0 \<le> x" "x < side" and y: "0 \<le> y" "y < side"
    and fits: "side * T < 2 ^ 63"
  shows "cropTile W h img T x y =
    (length h,
     h @ [\<lparr>Bounds = \<lparr>rMin = (0, 0), rMax = (T, T)\<rparr>,
           At = \<lambda>p. if In p \<lparr>rMin = (0, 0), rMax = (T, T)\<rparr>
                    then RGBAModel W (At (h ! img) (addPoint (x * T, y * T) (subPoint p (0, 0))))
                    else Transparent W\<rparr>])"
proof -
  note bx = cell_bounds [OF T x fits] and bounds_y = cell_bounds [OF T y fits]
  have side: "0 \<le> side * T" using bx T by simp
  have b: "Bounds (h ! img) = \<lparr>rMin = (0, 0), rMax = (side * T, side * T)\<rparr>"
    unfolding bounds using side by (simp add: Rect_ordered)
  have shift: "rectAdd \<lparr>rMin = (0, 0), rMax = (side * T, side * T)\<rparr> (subPoint (0, 0) (x * T, y * T)) =
      \<lparr>rMin = (- (x * T), - (y * T)), rMax = (side * T - x * T, side * T - y * T)\<rparr>"
  proof -
    have "int64 (- (x * T)) = - (x * T)" "int64 (- (y * T)) = - (y * T)"
      using bx bounds_y by (intro int64_id; simp)+
    moreover have "int64 (side * T - x * T) = side * T - x * T"
      "int64 (side * T - y * T) = side * T - y * T"
      using bx bounds_y fits T by (intro int64_id; simp)+
    ultimately show ?thesis
      by (simp add: rectAdd_def subPoint_def addPoint_def)
  qed
  have clip: "Intersect \<lparr>rMin = (0, 0), rMax = (T, T)\<rparr>
      \<lparr>rMin = (- (x * T), - (y * T)), rMax = (side * T - x * T, side * T - y * T)\<rparr> =
      \<lparr>rMin = (0, 0), rMax = (T, T)\<rparr>"
    using bx bounds_y T by (simp add: Intersect_def rectEmpty_def max_def min_def)
  have self: "Intersect \<lparr>rMin = (0, 0), rMax = (T, T)\<rparr> \<lparr>rMin = (0, 0), rMax = (T, T)\<rparr> =
      \<lparr>rMin = (0, 0), rMax = (T, T)\<rparr>"
    using T by (simp add: Intersect_def rectEmpty_def)
  have nonempty: "\<not> rectEmpty \<lparr>rMin = (0, 0), rMax = (T, T)\<rparr>"
    using T by (simp add: rectEmpty_def)
  have tile: "Rect 0 0 T T = \<lparr>rMin = (0, 0), rMax = (T, T)\<rparr>"
    using T by (simp add: Rect_ordered)
  show ?thesis
    unfolding cropTile_def NewRGBA_def Draw_def Let_def
      cropArea_eq [OF T x y fits] tile
    using img by (simp add: nth_append b shift clip self nonempty cong: if_cong)
qed

text \<open>
  The tile that \<open>cropTile\<close> makes for a cell of a raster of \<open>side * tileSize\<close> pixels: a
  new buffer, the others left as they were, of \<open>tileSize\<close> pixels in each direction,
  whose pixels are those of the cell in the tile's colour model.
\<close>

lemma cropTile_cell:
  fixes tileSize x y side :: int
  assumes "img < length h"
    and "Bounds (h ! img) = Rect 0 0 (side * tileSize) (side * tileSize)"
    and "side * tileSize < 2 ^ 63"
    and "0 < tileSize" and "0 \<le> x" "x < side" and "0 \<le> y" "y < side"
    and "cropTile W h img tileSize x y = (dst, h')"
  shows "dst = length h \<and> length h' = Suc (length h) \<and> take (length h) h' = h \<and>
    Bounds (h' ! dst) = Rect 0 0 tileSize tileSize \<and>
    Dx (Bounds (h' ! dst)) = tileSize \<and> Dy (Bounds (h' ! dst)) = tileSize \<and>
    (\<forall>i j. 0 \<le> i \<and> i < tileSize \<and> 0 \<le> j \<and> j < tileSize \<longrightarrow>
       At (h' ! dst) (i, j) = RGBAModel W (At (h ! img) (x * tileSize + i, y * tileSize + j)))"
proof -
  note r = cropTile_result [OF assms(1,2,4,5,6,7,8,3), of W]
  note bx = cell_bounds [OF assms(4,5,6,3)] and bounds_y = cell_bounds [OF assms(4,7,8,3)]
  from r assms(9) have dst: "dst = length h" and h': "h' = h @
      [\<lparr>Bounds = \<lparr>rMin = (0, 0), rMax = (tileSize, tileSize)\<rparr>,
        At = \<lambda>p. if In p \<lparr>rMin = (0, 0), rMax = (tileSize, tileSize)\<rparr>
                 then RGBAModel W (At (h ! img)
                   (addPoint (x * tileSize, y * tileSize) (subPoint p (0, 0))))
                 else Transparent W\<rparr>]"
    by simp_all
  have range: "int64 tileSize = tileSize"
    using bx assms(4) by (simp add: int64_id)
  have pixels: "At (h' ! dst) (i, j) =
      RGBAModel W (At (h ! img) (x * tileSize + i, y * tileSize + j))"
    if "0 \<le> i \<and> i < tileSize \<and> 0 \<le> j \<and> j < tileSize" for i j
  proof -
    have "addPoint (x * tileSize, y * tileSize) (subPoint (i, j) (0, 0)) =
        (x * tileSize + i, y * tileSize + j)"
      using that bx bounds_y
      by (intro tile_point [of "x * tileSize" tileSize "y * tileSize" i j]) simp_all
    then show ?thesis using that by (simp add: dst h' In_rect)
  qed
  show ?thesis
    using pixels assms(4) by (simp add: dst h' Rect_ordered Dx_def Dy_def range)
qed

lemma cell_of_point:
  fixes T px x :: int
  assumes "0 < T"
  shows "(x * T \<le> px \<and> px < x * T + T) = (x = px div T)"
proof
  assume a: "x * T \<le> px \<and> px < x * T + T"
  have "px div T = x"
    using a by (intro int_div_pos_eq [of px T x "px - x * T"]) (simp_all add: algebra_simps)
  then show "x = px div T" by simp
next
  assume x: "x = px div T"
  have "px div T * T + px mod T = px" by (rule div_mult_mod_eq)
  moreover have "0 \<le> px mod T" "px mod T < T" using assms by simp_all
  ultimately show "x * T \<le> px \<and> px < x * T + T" unfolding x by linarith
qed

lemma div_in_grid:
  fixes T px side :: int
  assumes "0 < T" "0 \<le> px" "px < side * T"
  shows "0 \<le> px div T" "px div T < side"
proof -
  show "0 \<le> px div T" using assms(1,2) by (simp add: pos_imp_zdiv_nonneg_iff)
  have "px div T * T + px mod T = px" by (rule div_mult_mod_eq)
  moreover have "0 \<le> px mod T" using assms(1) by simp
  ultimately have "px div T * T < side * T" using assms(3) by linarith
  then show "px div T < side" using assms(1) by (simp add: mult_less_cancel_right)
qed

lemma shiftLeft1_eq:
  assumes "0 \<le> level" "level \<le> 62"
  shows "shiftLeft1 level = 2 ^ nat level"
proof -
  have u: "uint64 level = level" using assms by (simp add: uint64_def)
  have "nat level < 63" using assms by simp
  then have "(2 :: int) ^ nat level < 2 ^ 63" by (simp only: power_strict_increasing_iff one_less_numeral_iff semiring_norm)
  moreover have "- (2 ^ 63) \<le> (2 :: int) ^ nat level"
    by (rule order_trans [of _ 0]) simp_all
  ultimately have "int64 (2 ^ nat level) = 2 ^ nat level" by (intro int64_id)
  with u assms show ?thesis by (simp add: shiftLeft1_def)
qed

lemma level_fits:
  fixes T level :: int
  assumes "0 < T" "0 \<le> level" "2 ^ nat level * T < 2 ^ 63"
  shows "level \<le> 62"
proof -
  have "(2 :: int) ^ nat level * 1 \<le> 2 ^ nat level * T"
    using assms(1) by (intro mult_left_mono) simp_all
  then have "(2 :: int) ^ nat level \<le> 2 ^ nat level * T" by (simp only: mult_1_right)
  from this assms(3) have "(2 :: int) ^ nat level < 2 ^ 63" by (rule le_less_trans)
  then have "nat level < 63" by (simp only: power_strict_increasing_iff one_less_numeral_iff semiring_norm)
  with assms(2) show ?thesis by simp
qed

lemma set_gridCells: "set (gridCells side) = {0..side - 1} \<times> {0..side - 1}"
  by (auto simp: gridCells_def)

lemma distinct_gridCells: "distinct (gridCells side)"
  unfolding gridCells_def
  by (rule distinct_concat) (auto simp: distinct_map inj_on_def)

lemma length_gridCells: "length (gridCells side) = nat side * nat side"
  by (simp add: gridCells_def length_concat comp_def sum_list_triv)

text \<open>
  C5, as stated, fails for the levels at which the 64-bit arithmetic of the program
  overflows. At level 64 \<^verbatim>\<open>1 << 64\<close> is 0, the grid has no cell, and the pixel \<open>(0, 0)\<close> of
  the raster of \<open>2 ^ 64 * 256\<close> pixels in each direction lies in no tile rectangle.
\<close>

theorem C5_level_64_counterexample:
  "In (0, 0) (Rect 0 0 (2 ^ nat 64 * 256) (2 ^ nat 64 * 256)) \<and>
   gridCells (shiftLeft1 64) = [] \<and>
   \<not> (\<exists>c. c \<in> set (gridCells (shiftLeft1 64)) \<and> In (0, 0) (cropArea 256 (fst c) (snd c)))"
proof -
  have s: "shiftLeft1 64 = 0" by (simp add: shiftLeft1_def uint64_def)
  have g: "gridCells (shiftLeft1 64) = []" unfolding s by (simp add: gridCells_def)
  have "In (0, 0) (Rect 0 0 (2 ^ nat 64 * 256) (2 ^ nat 64 * 256))"
    by (simp add: Rect_def In_def)
  with g show ?thesis by simp
qed

text \<open>
  C5, amended. At every level \<open>L \<ge> 0\<close> whose raster, of \<open>2 ^ L * tileSize\<close> pixels in each
  direction, fits the coordinates of an image (\<open>2 ^ L * tileSize < 2 ^ 63\<close>), the grid has
  \<open>2 ^ L\<close> cells in each direction, every pixel of the raster lies in the rectangle of
  exactly one cell, and the rectangle of every cell lies inside the raster.
\<close>

theorem C5_tiles_partition_the_raster:
  fixes tileSize level :: int
  assumes "0 < tileSize" "0 \<le> level" "2 ^ nat level * tileSize < 2 ^ 63"
  shows "shiftLeft1 level = 2 ^ nat level \<and>
    length (gridCells (shiftLeft1 level)) = 2 ^ nat level * 2 ^ nat level \<and>
    distinct (gridCells (shiftLeft1 level)) \<and>
    (\<forall>p. In p (Rect 0 0 (2 ^ nat level * tileSize) (2 ^ nat level * tileSize)) \<longrightarrow>
       (\<exists>!c. c \<in> set (gridCells (shiftLeft1 level)) \<and>
              In p (cropArea tileSize (fst c) (snd c)))) \<and>
    (\<forall>c \<in> set (gridCells (shiftLeft1 level)). \<forall>p.
       In p (cropArea tileSize (fst c) (snd c)) \<longrightarrow>
       In p (Rect 0 0 (2 ^ nat level * tileSize) (2 ^ nat level * tileSize)))"
proof -
  let ?side = "(2 :: int) ^ nat level"
  let ?raster = "Rect 0 0 (?side * tileSize) (?side * tileSize)"
  have side: "shiftLeft1 level = ?side"
    using assms(2) level_fits [OF assms] by (rule shiftLeft1_eq)
  have raster: "?raster = \<lparr>rMin = (0, 0), rMax = (?side * tileSize, ?side * tileSize)\<rparr>"
    using assms(1) by (intro Rect_ordered) simp_all
  have area: "cropArea tileSize x y =
      \<lparr>rMin = (x * tileSize, y * tileSize), rMax = (x * tileSize + tileSize, y * tileSize + tileSize)\<rparr>"
    if "(x, y) \<in> set (gridCells ?side)" for x y
    using that assms by (intro cropArea_eq [where side = ?side]) (auto simp: set_gridCells)
  have cover: "\<exists>!c. c \<in> set (gridCells ?side) \<and> In p (cropArea tileSize (fst c) (snd c))"
    if p: "In p ?raster" for p
  proof -
    obtain px py where pp: "p = (px, py)" by (cases p)
    from p have b: "0 \<le> px" "px < ?side * tileSize" "0 \<le> py" "py < ?side * tileSize"
      unfolding raster pp In_rect by simp_all
    let ?c = "(px div tileSize, py div tileSize)"
    note gx = div_in_grid [OF assms(1) b(1,2)] and gy = div_in_grid [OF assms(1) b(3,4)]
    have in_grid: "?c \<in> set (gridCells ?side)"
      using gx gy by (simp add: set_gridCells)
    show ?thesis
    proof (rule ex1I [of _ ?c])
      show "?c \<in> set (gridCells ?side) \<and> In p (cropArea tileSize (fst ?c) (snd ?c))"
        using in_grid cell_of_point [OF assms(1), of "px div tileSize" px]
          cell_of_point [OF assms(1), of "py div tileSize" py]
        by (simp add: area [OF in_grid] pp In_rect)
    next
      fix c
      assume c: "c \<in> set (gridCells ?side) \<and> In p (cropArea tileSize (fst c) (snd c))"
      obtain x y where xy: "c = (x, y)" by (cases c)
      from c have "(x, y) \<in> set (gridCells ?side)" unfolding xy by simp
      from c area [OF this] have "x * tileSize \<le> px \<and> px < x * tileSize + tileSize"
        "y * tileSize \<le> py \<and> py < y * tileSize + tileSize"
        unfolding xy pp by (simp_all add: In_rect)
      then show "c = ?c"
        unfolding xy cell_of_point [OF assms(1)] by simp
    qed
  qed
  have inside: "In p ?raster"
    if c: "c \<in> set (gridCells ?side)" and p: "In p (cropArea tileSize (fst c) (snd c))" for c p
  proof -
    obtain x y where xy: "c = (x, y)" by (cases c)
    obtain px py where pp: "p = (px, py)" by (cases p)
    from c have g: "(x, y) \<in> set (gridCells ?side)" unfolding xy .
    then have "0 \<le> x" "x < ?side" "0 \<le> y" "y < ?side" by (auto simp: set_gridCells)
    note bx = cell_bounds [OF assms(1) this(1,2) assms(3)]
      and bounds_y = cell_bounds [OF assms(1) this(3,4) assms(3)]
    from p have "x * tileSize \<le> px \<and> px < x * tileSize + tileSize"
      "y * tileSize \<le> py \<and> py < y * tileSize + tileSize"
      unfolding xy pp by (simp_all add: area [OF g] In_rect)
    with bx bounds_y show ?thesis unfolding raster pp In_rect by simp
  qed
  have len: "length (gridCells ?side) = 2 ^ nat level * 2 ^ nat level"
    by (simp add: length_gridCells nat_power_eq)
  show ?thesis
    unfolding side using cover inside len distinct_gridCells by blast
qed

theorem C5_partition_witness:
  "(0 :: int) < 2 \<and> (2 :: int) ^ nat 1 * 2 < 2 ^ 63 \<and> shiftLeft1 1 = 2 \<and>
   length (gridCells (shiftLeft1 1)) = 4 \<and>
   In (3, 1) (Rect 0 0 (2 ^ nat 1 * 2) (2 ^ nat 1 * 2)) \<and>
   (THE c. c \<in> set (gridCells (shiftLeft1 1)) \<and> In (3, 1) (cropArea 2 (fst c) (snd c))) = (1, 0)"
proof -
  have h: "(0 :: int) < 2" "(0 :: int) \<le> 1" "(2 :: int) ^ nat 1 * 2 < 2 ^ 63" by simp_all
  note t = C5_tiles_partition_the_raster [OF h]
  from t have "shiftLeft1 1 = 2 ^ nat 1"
    and "length (gridCells (shiftLeft1 1)) = 2 ^ nat 1 * 2 ^ nat 1" by blast+
  then have side: "shiftLeft1 1 = 2" and len: "length (gridCells (shiftLeft1 1)) = 4"
    by simp_all
  have p: "In (3, 1) (Rect 0 0 (2 ^ nat 1 * 2) (2 ^ nat 1 * 2))"
    by (simp add: Rect_def In_def)
  from t p have u: "\<exists>!c. c \<in> set (gridCells (shiftLeft1 1)) \<and>
      In (3, 1) (cropArea 2 (fst c) (snd c))" by blast
  have c: "(1, 0) \<in> set (gridCells (shiftLeft1 1)) \<and>
      In (3, 1) (cropArea 2 (fst (1 :: int, 0 :: int)) (snd (1 :: int, 0 :: int)))"
    unfolding side by (simp add: set_gridCells cropArea_def Rect_def In_def int64_def)
  have "(THE c. c \<in> set (gridCells (shiftLeft1 1)) \<and>
      In (3, 1) (cropArea 2 (fst c) (snd c))) = (1, 0)"
    using u c by (rule the1_equality)
  with h side len p show ?thesis by blast
qed

lemma skeleton_append [simp]: "skeleton (a @ b) = skeleton a @ skeleton b"
  by (simp add: skeleton_def)

lemma skeleton_simps [simp]:
  "skeleton [] = []"
  "skeleton (ResizeCall src w h k # tr) = ResizeCall src w h k # skeleton tr"
  by (simp_all add: skeleton_def)

lemma skeleton_writeTile: "skeleton (writeTile W F c path t) = writeTile W F c path ()"
  by (simp add: skeleton_def writeTile_def split: option.splits)

lemma trace_Crop:
  "skeleton (trace (Crop W F st img T x y l)) =
   skeleton (trace st) @ writeTile W F (l, x, y) (tilePath W F l x y) ()"
  by (simp add: Crop_def Let_def skeleton_writeTile split: prod.splits)

lemma trace_cells:
  "skeleton (trace (foldl (\<lambda>s (x, row). Crop W F s r T x row l) st cells)) =
   skeleton (trace st) @
   concat (map (\<lambda>(x, row). writeTile W F (l, x, row) (tilePath W F l x row) ()) cells)"
proof (induction cells arbitrary: st)
  case Nil
  then show ?case by simp
next
  case (Cons c cells)
  obtain x row where c: "c = (x, row)" by (cases c)
  show ?case unfolding c by (simp add: Cons.IH trace_Crop)
qed

lemma trace_SplitTiles:
  "skeleton (trace (SplitTiles W F st 0 T l k)) = skeleton (trace st) @ levelEvents W F T k l"
  by (simp add: SplitTiles_def Let_def trace_cells levelEvents_def)

lemma trace_levels:
  "skeleton (trace (foldl (\<lambda>st i. SplitTiles W F st 0 T i k) st ls)) =
   skeleton (trace st) @ concat (map (levelEvents W F T k) ls)"
  by (induction ls arbitrary: st) (simp_all add: trace_SplitTiles)

lemma main_run:
  assumes "main_setup W F = Inr (img, k, N, out)"
  shows "fst (main W F) = Exit0"
    and "skeleton (trace (snd (main W F))) =
         skeleton out @ concat (map (levelEvents W F (flagTileSize F) k) (rev [0..N]))"
  using assms by (simp_all add: main_def trace_levels)

lemma Crop_heap:
  "\<exists>t. heap (Crop W F st img T x y l) = heap st @ [t]"
  by (simp add: Crop_def cropTile_def NewRGBA_def Draw_def Let_def)

lemma cells_heap:
  "\<exists>ts. heap (foldl (\<lambda>s (x, row). Crop W F s r T x row l) st cells) = heap st @ ts"
proof (induction cells arbitrary: st)
  case Nil
  then show ?case by simp
next
  case (Cons c cells)
  obtain x row where c: "c = (x, row)" by (cases c)
  obtain t where t: "heap (Crop W F st r T x row l) = heap st @ [t]"
    using Crop_heap by blast
  from Cons.IH [of "Crop W F st r T x row l"] obtain ts where
    "heap (foldl (\<lambda>s (x, row). Crop W F s r T x row l) (Crop W F st r T x row l) cells) =
     heap (Crop W F st r T x row l) @ ts" by blast
  then show ?case unfolding c by (simp add: t)
qed

lemma SplitTiles_heap:
  "\<exists>ts. heap (SplitTiles W F st img T l k) = heap st @ ts"
proof -
  let ?st1 = "\<lparr>heap = heap st @ [Resize W (levelWidth T l) (levelWidth T l) (heap st ! img) k],
               trace = trace st @ [ResizeCall img (levelWidth T l) (levelWidth T l) k]\<rparr>"
  from cells_heap [of W F "length (heap st)" T l ?st1 "gridCells (shiftLeft1 l)"]
  obtain ts where "heap (foldl (\<lambda>s (x, row). Crop W F s (length (heap st)) T x row l) ?st1
      (gridCells (shiftLeft1 l))) = heap ?st1 @ ts" by blast
  then show ?thesis by (simp add: SplitTiles_def Let_def)
qed

lemma levels_heap:
  "\<exists>ts. heap (foldl (\<lambda>st i. SplitTiles W F st 0 T i k) st ls) = heap st @ ts"
proof (induction ls arbitrary: st)
  case Nil
  then show ?case by simp
next
  case (Cons l ls)
  obtain ts where 1: "heap (SplitTiles W F st 0 T l k) = heap st @ ts"
    using SplitTiles_heap by blast
  from Cons.IH [of "SplitTiles W F st 0 T l k"] obtain ts' where
    "heap (foldl (\<lambda>st i. SplitTiles W F st 0 T i k) (SplitTiles W F st 0 T l k) ls) =
     heap (SplitTiles W F st 0 T l k) @ ts'" by blast
  then show ?case by (simp add: 1)
qed

lemma main_source_kept:
  assumes "main_setup W F = Inr (img, k, N, out)"
  shows "heap (snd (main W F)) ! 0 = img"
proof -
  from levels_heap [of W F "flagTileSize F" k "\<lparr>heap = [img], trace = out\<rparr>" "rev [0..N]"]
  obtain ts where "heap (foldl (\<lambda>st i. SplitTiles W F st 0 (flagTileSize F) i k)
      \<lparr>heap = [img], trace = out\<rparr> (rev [0..N])) = [img] @ ts" by auto
  with assms show ?thesis by (simp add: main_def)
qed

lemma Crop_trace_prefix: "\<exists>ts. trace (Crop W F st img T x y l) = trace st @ ts"
  by (simp add: Crop_def Let_def split: prod.splits)

lemma cells_trace_prefix:
  "\<exists>ts. trace (foldl (\<lambda>s (x, row). Crop W F s r T x row l) st cells) = trace st @ ts"
proof (induction cells arbitrary: st)
  case Nil
  then show ?case by simp
next
  case (Cons c cells)
  obtain x row where c: "c = (x, row)" by (cases c)
  obtain ts where t: "trace (Crop W F st r T x row l) = trace st @ ts"
    using Crop_trace_prefix by blast
  from Cons.IH [of "Crop W F st r T x row l"] obtain ts' where
    "trace (foldl (\<lambda>s (x, row). Crop W F s r T x row l) (Crop W F st r T x row l) cells) =
     trace (Crop W F st r T x row l) @ ts'" by blast
  then show ?case unfolding c by (simp add: t)
qed

lemma SplitTiles_trace_prefix:
  "\<exists>ts. trace (SplitTiles W F st img T l k) = trace st @ ts"
proof -
  let ?st1 = "\<lparr>heap = heap st @ [Resize W (levelWidth T l) (levelWidth T l) (heap st ! img) k],
               trace = trace st @ [ResizeCall img (levelWidth T l) (levelWidth T l) k]\<rparr>"
  from cells_trace_prefix [of W F "length (heap st)" T l ?st1 "gridCells (shiftLeft1 l)"]
  obtain ts where "trace (foldl (\<lambda>s (x, row). Crop W F s (length (heap st)) T x row l) ?st1
      (gridCells (shiftLeft1 l))) = trace ?st1 @ ts" by blast
  then show ?thesis by (simp add: SplitTiles_def Let_def)
qed

lemma trace_prefix:
  "\<exists>ts. trace (foldl (\<lambda>st i. SplitTiles W F st 0 T i k) st ls) = trace st @ ts"
proof (induction ls arbitrary: st)
  case Nil
  then show ?case by simp
next
  case (Cons l ls)
  obtain ts where 1: "trace (SplitTiles W F st 0 T l k) = trace st @ ts"
    using SplitTiles_trace_prefix by blast
  from Cons.IH [of "SplitTiles W F st 0 T l k"] obtain ts' where
    "trace (foldl (\<lambda>st i. SplitTiles W F st 0 T i k) (SplitTiles W F st 0 T l k) ls) =
     trace (SplitTiles W F st 0 T l k) @ ts'" by blast
  then show ?case by (simp add: 1)
qed

lemma obs_append [simp]:
  "tilesAttempted (a @ b) = tilesAttempted a @ tilesAttempted b"
  "tilesWritten (a @ b) = tilesWritten a @ tilesWritten b"
  "pathsWritten (a @ b) = pathsWritten a @ pathsWritten b"
  "encodersUsed (a @ b) = encodersUsed a @ encodersUsed b"
  "resizeCalls (a @ b) = resizeCalls a @ resizeCalls b"
  "logged (a @ b) = logged a @ logged b"
  by (simp_all add: tilesAttempted_def tilesWritten_def pathsWritten_def encodersUsed_def
      resizeCalls_def logged_def)

lemma obs_Nil [simp]:
  "tilesAttempted [] = []" "tilesWritten [] = []" "pathsWritten [] = []"
  "encodersUsed [] = []" "resizeCalls [] = []" "logged [] = []"
  by (simp_all add: tilesAttempted_def tilesWritten_def pathsWritten_def encodersUsed_def
      resizeCalls_def logged_def)

lemma obs_Cons:
  "tilesAttempted (e # tr) = attemptedAt e @ tilesAttempted tr"
  "tilesWritten (e # tr) = writtenAt e @ tilesWritten tr"
  "pathsWritten (e # tr) = writtenPath e @ pathsWritten tr"
  "encodersUsed (e # tr) = encoderAt e @ encodersUsed tr"
  "resizeCalls (e # tr) = resizeAt e @ resizeCalls tr"
  "logged (e # tr) = loggedAt e @ logged tr"
  by (simp_all add: tilesAttempted_def tilesWritten_def pathsWritten_def encodersUsed_def
      resizeCalls_def logged_def)

lemma obs_concat:
  "tilesAttempted (concat trs) = concat (map tilesAttempted trs)"
  "tilesWritten (concat trs) = concat (map tilesWritten trs)"
  "pathsWritten (concat trs) = concat (map pathsWritten trs)"
  "encodersUsed (concat trs) = concat (map encodersUsed trs)"
  "resizeCalls (concat trs) = concat (map resizeCalls trs)"
  "logged (concat trs) = concat (map logged trs)"
  by (induction trs) simp_all

lemma at_map_Event:
  "attemptedAt (map_Event f e) = attemptedAt e"
  "writtenAt (map_Event f e) = writtenAt e"
  "writtenPath (map_Event f e) = writtenPath e"
  "encoderAt (map_Event f e) = encoderAt e"
  "resizeAt (map_Event f e) = resizeAt e"
  "loggedAt (map_Event f e) = loggedAt e"
proof -
  show "attemptedAt (map_Event f e) = attemptedAt e" by (cases e) simp_all
  show "writtenAt (map_Event f e) = writtenAt e"
    by (induction e rule: writtenAt.induct) simp_all
  show "writtenPath (map_Event f e) = writtenPath e"
    by (induction e rule: writtenPath.induct) simp_all
  show "encoderAt (map_Event f e) = encoderAt e" by (cases e) simp_all
  show "resizeAt (map_Event f e) = resizeAt e" by (cases e) simp_all
  show "loggedAt (map_Event f e) = loggedAt e" by (cases e) simp_all
qed

lemma obs_skeleton:
  "tilesAttempted (skeleton tr) = tilesAttempted tr"
  "tilesWritten (skeleton tr) = tilesWritten tr"
  "pathsWritten (skeleton tr) = pathsWritten tr"
  "encodersUsed (skeleton tr) = encodersUsed tr"
  "resizeCalls (skeleton tr) = resizeCalls tr"
  "logged (skeleton tr) = logged tr"
  by (induction tr) (simp_all add: skeleton_def obs_Cons at_map_Event)

lemma obs_writeTile:
  "tilesAttempted (writeTile W F c path t) = [c]"
  "resizeCalls (writeTile W F c path t) = []"
  "tilesWritten (writeTile W F c path t) =
     (if flagEncoding F \<in> set validEncodings \<and> createErr W c = None \<and> encodeErr W c = None
      then [c] else [])"
  "pathsWritten (writeTile W F c path t) =
     (if flagEncoding F \<in> set validEncodings \<and> createErr W c = None \<and> encodeErr W c = None
      then [path] else [])"
  "encodersUsed (writeTile W F c path t) =
     (if createErr W c = None
      then (if flagEncoding F = ''png'' then [(c, PNG)]
            else if flagEncoding F = ''jpeg'' then [(c, JPEG (flagJpegQuality F))] else [])
      else [])"
  "flagEncoding F \<in> set validEncodings \<Longrightarrow> logged (writeTile W F c path t) = tileError W c"
  by (auto simp: writeTile_def obs_Cons validEncodings_def tileError_def split: option.splits)

lemma obs_levelEvents:
  "tilesAttempted (levelEvents W F T k l) = map (Pair l) (gridCells (shiftLeft1 l))"
  "resizeCalls (levelEvents W F T k l) = [(0, levelWidth T l, levelWidth T l, k)]"
  "tilesWritten (levelEvents W F T k l) =
     concat (map (\<lambda>(x, row). tilesWritten (writeTile W F (l, x, row) (tilePath W F l x row) ()))
       (gridCells (shiftLeft1 l)))"
  "pathsWritten (levelEvents W F T k l) =
     concat (map (\<lambda>(x, row). pathsWritten (writeTile W F (l, x, row) (tilePath W F l x row) ()))
       (gridCells (shiftLeft1 l)))"
  "encodersUsed (levelEvents W F T k l) =
     concat (map (\<lambda>(x, row). encodersUsed (writeTile W F (l, x, row) (tilePath W F l x row) ()))
       (gridCells (shiftLeft1 l)))"
  "logged (levelEvents W F T k l) =
     concat (map (\<lambda>(x, row). logged (writeTile W F (l, x, row) (tilePath W F l x row) ()))
       (gridCells (shiftLeft1 l)))"
proof -
  have c: "concat (map (\<lambda>c. [f c]) cs) = map f cs" for f :: "int \<times> int \<Rightarrow> 'b" and cs
    by (induction cs) simp_all
  show "tilesAttempted (levelEvents W F T k l) = map (Pair l) (gridCells (shiftLeft1 l))"
    using c [of "Pair l"]
    by (simp add: levelEvents_def obs_Cons obs_concat comp_def case_prod_unfold obs_writeTile)
  show "resizeCalls (levelEvents W F T k l) = [(0, levelWidth T l, levelWidth T l, k)]"
    by (simp add: levelEvents_def obs_Cons obs_concat comp_def case_prod_unfold obs_writeTile)
qed (simp_all add: levelEvents_def obs_Cons obs_concat comp_def case_prod_unfold)

lemma obs_Stderr:
  "tilesAttempted (map (\<lambda>x. Stderr (g x)) xs) = []"
  "tilesWritten (map (\<lambda>x. Stderr (g x)) xs) = []"
  "pathsWritten (map (\<lambda>x. Stderr (g x)) xs) = []"
  "encodersUsed (map (\<lambda>x. Stderr (g x)) xs) = []"
  "resizeCalls (map (\<lambda>x. Stderr (g x)) xs) = []"
  "logged (map (\<lambda>x. Stderr (g x)) xs) = []"
  by (induction xs) (simp_all add: obs_Cons)

lemma setup_facts:
  assumes "main_setup W F = Inr (img, k, N, out)"
  shows "0 < flagTileSize F" "flagEncoding F \<in> set validEncodings" "N \<noteq> 0"
    "k = fst (lookupInterp (flagInterpFunc F))" "ParseInt (args F ! 0) = Inr N"
    "tilesAttempted out = []" "tilesWritten out = []" "pathsWritten out = []"
    "encodersUsed out = []" "resizeCalls out = []" "logged out = []"
  using assms
  by (auto simp: main_setup_def Let_def obs_Cons obs_Stderr comp_def
      split: if_splits prod.splits StatResult.splits option.splits sum.splits)

lemma concat_if_cells:
  "concat (map (\<lambda>(x, row). if P (l, x, row) then [(l, x, row)] else []) cs) =
   filter P (map (Pair l) cs)"
  by (induction cs) auto

lemma concat_map_cells:
  "concat (map (\<lambda>(x, row). g (l, x, row)) cs) = concat (map g (map (Pair l) cs))"
  by (induction cs) auto

lemma concat_map_levels:
  "concat (map (\<lambda>l. concat (map g (h l))) ls) = concat (map g (concat (map h ls)))"
  by (induction ls) simp_all

lemma main_attempted:
  assumes "main_setup W F = Inr (img, k, N, out)"
  shows "tilesAttempted (trace (snd (main W F))) = pyramidCells N"
proof -
  have "tilesAttempted (trace (snd (main W F))) = tilesAttempted (skeleton (trace (snd (main W F))))"
    by (simp only: obs_skeleton)
  also have "\<dots> = concat (map (\<lambda>l. tilesAttempted (levelEvents W F (flagTileSize F) k l)) (rev [0..N]))"
    unfolding main_run(2) [OF assms]
    by (simp add: obs_skeleton obs_concat setup_facts(6) [OF assms] comp_def)
  finally show ?thesis by (simp add: obs_levelEvents pyramidCells_def)
qed

lemma main_written:
  assumes "main_setup W F = Inr (img, k, N, out)"
  shows "tilesWritten (trace (snd (main W F))) =
    filter (\<lambda>c. createErr W c = None \<and> encodeErr W c = None) (pyramidCells N)"
proof -
  let ?ok = "\<lambda>c. createErr W c = None \<and> encodeErr W c = None"
  note enc = setup_facts(2) [OF assms]
  have level: "tilesWritten (levelEvents W F T k l) =
      filter ?ok (map (Pair l) (gridCells (shiftLeft1 l)))" for T l
    using concat_if_cells [of ?ok l "gridCells (shiftLeft1 l)"]
    by (simp add: obs_levelEvents obs_writeTile enc)
  have "tilesWritten (trace (snd (main W F))) = tilesWritten (skeleton (trace (snd (main W F))))"
    by (simp only: obs_skeleton)
  also have "\<dots> = concat (map (\<lambda>l. tilesWritten (levelEvents W F (flagTileSize F) k l)) (rev [0..N]))"
    unfolding main_run(2) [OF assms]
    by (simp add: obs_skeleton obs_concat setup_facts(7) [OF assms] comp_def)
  finally show ?thesis
    by (simp add: level pyramidCells_def filter_concat comp_def)
qed

lemma main_logged:
  assumes "main_setup W F = Inr (img, k, N, out)"
  shows "logged (trace (snd (main W F))) = concat (map (tileError W) (pyramidCells N))"
proof -
  note enc = setup_facts(2) [OF assms]
  have level: "logged (levelEvents W F T k l) =
      concat (map (tileError W) (map (Pair l) (gridCells (shiftLeft1 l))))" for T l
    using concat_map_cells [of "tileError W" l "gridCells (shiftLeft1 l)"]
    by (simp add: obs_levelEvents obs_writeTile enc)
  have "logged (trace (snd (main W F))) = logged (skeleton (trace (snd (main W F))))"
    by (simp only: obs_skeleton)
  also have "\<dots> = concat (map (\<lambda>l. logged (levelEvents W F (flagTileSize F) k l)) (rev [0..N]))"
    unfolding main_run(2) [OF assms]
    by (simp add: obs_skeleton obs_concat setup_facts(11) [OF assms] comp_def)
  finally show ?thesis
    by (simp only: level pyramidCells_def concat_map_levels)
qed

lemma main_resizeCalls:
  assumes "main_setup W F = Inr (img, k, N, out)"
  shows "resizeCalls (trace (snd (main W F))) =
    map (\<lambda>l. (0, levelWidth (flagTileSize F) l, levelWidth (flagTileSize F) l, k)) (rev [0..N])"
proof -
  have c: "concat (map (\<lambda>l. [f l]) ls) = map f ls" for f :: "int \<Rightarrow> 'b" and ls
    by (induction ls) simp_all
  have "resizeCalls (trace (snd (main W F))) = resizeCalls (skeleton (trace (snd (main W F))))"
    by (simp only: obs_skeleton)
  also have "\<dots> = concat (map (\<lambda>l. resizeCalls (levelEvents W F (flagTileSize F) k l)) (rev [0..N]))"
    unfolding main_run(2) [OF assms]
    by (simp add: obs_skeleton obs_concat setup_facts(10) [OF assms] comp_def)
  finally show ?thesis by (simp add: obs_levelEvents c)
qed

lemma set_pyramidCells:
  "set (pyramidCells N) =
   {(l, x, y). 0 \<le> l \<and> l \<le> N \<and> 0 \<le> x \<and> x < shiftLeft1 l \<and> 0 \<le> y \<and> y < shiftLeft1 l}"
  by (auto simp: pyramidCells_def set_gridCells)

lemma distinct_keyed_concat:
  assumes "distinct ls" "\<And>l. l \<in> set ls \<Longrightarrow> distinct (f l)"
    "\<And>l c. l \<in> set ls \<Longrightarrow> c \<in> set (f l) \<Longrightarrow> key c = l"
  shows "distinct (concat (map f ls))"
  using assms
proof (induction ls)
  case Nil
  then show ?case by simp
next
  case (Cons l ls)
  have "set (f l) \<inter> (\<Union>m \<in> set ls. set (f m)) = {}"
  proof (rule ccontr)
    assume "set (f l) \<inter> (\<Union>m \<in> set ls. set (f m)) \<noteq> {}"
    then obtain c m where "c \<in> set (f l)" "m \<in> set ls" "c \<in> set (f m)" by blast
    with Cons.prems(3) [of l c] Cons.prems(3) [of m c] have "l = m" by simp
    with \<open>m \<in> set ls\<close> Cons.prems(1) show False by simp
  qed
  moreover have "distinct (concat (map f ls))"
    using Cons.prems by (intro Cons.IH) simp_all
  ultimately show ?case using Cons.prems(2) [of l] by simp
qed

lemma distinct_pyramidCells: "distinct (pyramidCells N)"
  unfolding pyramidCells_def
proof (rule distinct_keyed_concat [where key = fst])
  show "distinct (rev [0..N])" by simp
  show "distinct (map (Pair l) (gridCells (shiftLeft1 l)))" for l
    using distinct_gridCells by (simp add: distinct_map inj_on_def)
  show "fst c = l" if "c \<in> set (map (Pair l) (gridCells (shiftLeft1 l)))" for l c
    using that by auto
qed

lemma sum_list_upto_nat:
  "0 \<le> N \<Longrightarrow> sum_list (map (\<lambda>l. g (nat l)) [0..N]) = (\<Sum>L = 0..nat N. g L)"
proof (induction "nat N" arbitrary: N)
  case 0
  then have "N = 0" by simp
  then show ?case by simp
next
  case (Suc n)
  then have N: "nat N = Suc n" "0 \<le> N - 1" "n = nat (N - 1)" by simp_all
  have "[0..N] = [0..N - 1] @ [N]" using Suc.prems N by (simp add: upto_rec2)
  then have "sum_list (map (\<lambda>l. g (nat l)) [0..N]) =
      sum_list (map (\<lambda>l. g (nat l)) [0..N - 1]) + g (nat N)" by simp
  also have "\<dots> = (\<Sum>L = 0..nat (N - 1). g L) + g (nat N)"
    using Suc.hyps(1) [OF N(3) N(2)] by simp
  also have "\<dots> = (\<Sum>L = 0..nat N. g L)" using N by simp
  finally show ?case .
qed

lemma length_pyramidCells:
  assumes "0 \<le> N" "N \<le> 62"
  shows "length (pyramidCells N) = (\<Sum>L = 0..nat N. 4 ^ L)"
proof -
  have cells: "length (gridCells (shiftLeft1 l)) = 4 ^ nat l" if "l \<in> set [0..N]" for l
  proof -
    from that assms have "0 \<le> l" "l \<le> 62" by simp_all
    then have "shiftLeft1 l = 2 ^ nat l" by (rule shiftLeft1_eq)
    then have "length (gridCells (shiftLeft1 l)) = 2 ^ nat l * 2 ^ nat l"
      by (simp add: length_gridCells nat_power_eq)
    also have "\<dots> = (2 * 2) ^ nat l" by (simp only: power_mult_distrib)
    finally show ?thesis by simp
  qed
  have "length (pyramidCells N) = sum_list (map (\<lambda>l. length (gridCells (shiftLeft1 l))) (rev [0..N]))"
    by (simp add: pyramidCells_def length_concat comp_def rev_map [symmetric])
  also have "\<dots> = sum_list (map (\<lambda>l. length (gridCells (shiftLeft1 l))) [0..N])"
    by (simp only: rev_map [symmetric] sum_list_rev)
  also have "\<dots> = sum_list (map (\<lambda>l. 4 ^ nat l) [0..N])"
    using cells by (intro arg_cong [where f = sum_list] map_cong) simp_all
  also have "\<dots> = (\<Sum>L = 0..nat N. 4 ^ L)"
    using assms(1) by (rule sum_list_upto_nat)
  finally show ?thesis .
qed

lemma main_pathsWritten:
  assumes "main_setup W F = Inr (img, k, N, out)"
  shows "pathsWritten (trace (snd (main W F))) =
    map (\<lambda>(l, x, y). tilePath W F l x y)
      (filter (\<lambda>c. createErr W c = None \<and> encodeErr W c = None) (pyramidCells N))"
proof -
  let ?ok = "\<lambda>c. createErr W c = None \<and> encodeErr W c = None"
  let ?path = "\<lambda>(l, x, y). tilePath W F l x y"
  note enc = setup_facts(2) [OF assms]
  have cells: "concat (map (\<lambda>(x, row). if ?ok (l, x, row) then [tilePath W F l x row] else []) cs) =
      map ?path (filter ?ok (map (Pair l) cs))" for l cs
    by (induction cs) auto
  have level: "pathsWritten (levelEvents W F T k l) =
      map ?path (filter ?ok (map (Pair l) (gridCells (shiftLeft1 l))))" for T l
    using cells [of l "gridCells (shiftLeft1 l)"]
    by (simp add: obs_levelEvents obs_writeTile enc)
  have levels: "concat (map (\<lambda>l. map ?path (filter ?ok (h l))) ls) =
      map ?path (filter ?ok (concat (map h ls)))" for h and ls :: "int list"
    by (induction ls) simp_all
  have "pathsWritten (trace (snd (main W F))) = pathsWritten (skeleton (trace (snd (main W F))))"
    by (simp only: obs_skeleton)
  also have "\<dots> = concat (map (\<lambda>l. pathsWritten (levelEvents W F (flagTileSize F) k l)) (rev [0..N]))"
    unfolding main_run(2) [OF assms]
    by (simp add: obs_skeleton obs_concat setup_facts(8) [OF assms] comp_def)
  finally show ?thesis
    by (simp only: level pyramidCells_def levels)
qed

lemma pyramid_set_small:
  assumes "N \<le> 62"
  shows "set (pyramidCells N) =
    {(l, x, y). 0 \<le> l \<and> l \<le> N \<and> 0 \<le> x \<and> x < 2 ^ nat l \<and> 0 \<le> y \<and> y < 2 ^ nat l}"
proof -
  have "shiftLeft1 l = 2 ^ nat l" if "0 \<le> l" "l \<le> N" for l
    using that assms by (intro shiftLeft1_eq) simp_all
  then show ?thesis unfolding set_pyramidCells by auto
qed

text \<open>
  C1, as stated, fails: the side of a level's grid is computed in a 64-bit \<^verbatim>\<open>int\<close>, and
  \<^verbatim>\<open>1 << 64\<close> is 0. A run with maximum level 64, tile size 256 and no I/O error writes no
  tile of level 64, not even the one at \<open>(64, 0, 0)\<close>.
\<close>

theorem C1_level_64_counterexample:
  "main_setup exampleWorld (exampleFlags\<lparr>args := [''64'', ''source.png'']\<rparr>) =
     Inr (exampleImage, Bicubic, 64, []) \<and>
   (\<forall>c. createErr exampleWorld c = None \<and> encodeErr exampleWorld c = None) \<and>
   (64, 0, 0) \<notin> set (tilesWritten (trace (snd (main exampleWorld
      (exampleFlags\<lparr>args := [''64'', ''source.png'']\<rparr>)))))"
proof -
  let ?F = "exampleFlags\<lparr>args := [''64'', ''source.png'']\<rparr>"
  have s: "main_setup exampleWorld ?F = Inr (exampleImage, Bicubic, 64, [])"
    by (simp add: main_setup_def exampleWorld_def exampleFlags_def lookupInterp_def
        interpFuncs_def validEncodings_def Ext_def ParseInt_def digitVal_def)
  have "shiftLeft1 64 = 0" by (simp add: shiftLeft1_def uint64_def)
  then have "(64, 0, 0) \<notin> set (pyramidCells 64)" by (simp add: set_pyramidCells)
  then have "(64, 0, 0) \<notin> set (tilesWritten (trace (snd (main exampleWorld ?F))))"
    by (simp add: main_written [OF s])
  moreover have "\<forall>c. createErr exampleWorld c = None \<and> encodeErr exampleWorld c = None"
    by (simp add: exampleWorld_def)
  ultimately show ?thesis using s by blast
qed

text \<open>
  C1, amended. In every run that passes the checks of \<^verbatim>\<open>main\<close> with a maximum level \<open>N\<close>
  from 1 to 62 and meets no tile error, \<^verbatim>\<open>main\<close> returns normally and the tiles written
  (created and encoded) are one for each coordinate \<open>(level, x, y)\<close> with
  \<open>0 \<le> level \<le> N\<close> and \<open>0 \<le> x, y < 2 ^ level\<close>, each coordinate once, the sum of \<open>4 ^ L\<close>
  for \<open>L\<close> from 0 to \<open>N\<close> in all. With a name pattern \<open>a{zoom}b{x}c{y}d\<close> as in C9 they are
  written to as many different paths.
\<close>

theorem C1_every_coordinate_once:
  assumes "main_setup W F = Inr (img, k, N, out)" and "1 \<le> N" and "N \<le> 62"
    and "\<forall>c. createErr W c = None \<and> encodeErr W c = None"
  shows "fst (main W F) = Exit0 \<and>
    distinct (tilesWritten (trace (snd (main W F)))) \<and>
    set (tilesWritten (trace (snd (main W F)))) =
      {(l, x, y). 0 \<le> l \<and> l \<le> N \<and> 0 \<le> x \<and> x < 2 ^ nat l \<and> 0 \<le> y \<and> y < 2 ^ nat l} \<and>
    length (tilesWritten (trace (snd (main W F)))) = (\<Sum>L = 0..nat N. 4 ^ L) \<and>
    (flagPattern F = a @ ''{zoom}'' @ b @ ''{x}'' @ c @ ''{y}'' @ d \<and>
     CHR ''{'' \<notin> set (a @ b @ c @ d) \<and> CHR ''/'' \<notin> set (a @ b @ c @ d) \<and>
     b \<noteq> [] \<and> \<not> isDigit (hd b) \<and> c \<noteq> [] \<and> \<not> isDigit (hd c) \<and>
     inj_on (Join W (flagOutDir F)) {n. plainName n} \<longrightarrow>
     distinct (pathsWritten (trace (snd (main W F)))) \<and>
     length (pathsWritten (trace (snd (main W F)))) = (\<Sum>L = 0..nat N. 4 ^ L))"
proof -
  have all: "filter (\<lambda>c. createErr W c = None \<and> encodeErr W c = None) cs = cs" for cs
    by (intro filter_True ballI) (simp add: assms(4))
  have w: "tilesWritten (trace (snd (main W F))) = pyramidCells N"
    by (simp only: main_written [OF assms(1)] all)
  have p: "pathsWritten (trace (snd (main W F))) =
      map (\<lambda>(l, x, y). tilePath W F l x y) (pyramidCells N)"
    by (simp only: main_pathsWritten [OF assms(1)] all)
  have N: "0 \<le> N" using assms(2) by simp
  have paths: "distinct (pathsWritten (trace (snd (main W F)))) \<and>
      length (pathsWritten (trace (snd (main W F)))) = (\<Sum>L = 0..nat N. 4 ^ L)"
    if h: "flagPattern F = a @ ''{zoom}'' @ b @ ''{x}'' @ c @ ''{y}'' @ d \<and>
      CHR ''{'' \<notin> set (a @ b @ c @ d) \<and> CHR ''/'' \<notin> set (a @ b @ c @ d) \<and>
      b \<noteq> [] \<and> \<not> isDigit (hd b) \<and> c \<noteq> [] \<and> \<not> isDigit (hd c) \<and>
      inj_on (Join W (flagOutDir F)) {n. plainName n}"
  proof -
    have "inj_on (\<lambda>(l, x, y). tilePath W F l x y) (set (pyramidCells N))"
    proof (rule inj_onI)
      fix u v
      assume u: "u \<in> set (pyramidCells N)" and v: "v \<in> set (pyramidCells N)"
        and eq: "(case u of (l, x, y) \<Rightarrow> tilePath W F l x y) =
                 (case v of (l, x, y) \<Rightarrow> tilePath W F l x y)"
      obtain l x y where uu: "u = (l, x, y)" by (cases u)
      obtain l' x' y' where vv: "v = (l', x', y')" by (cases v)
      from u v have nn: "0 \<le> l" "0 \<le> x" "0 \<le> y" "0 \<le> l'" "0 \<le> x'" "0 \<le> y'"
        unfolding uu vv set_pyramidCells by simp_all
      from eq have e: "tilePath W F l x y = tilePath W F l' x' y'" unfolding uu vv by simp
      have "plainName (fileName (flagPattern F) l x y)"
        using h nn by (intro fileName_plain [of _ a b c d]) simp_all
      moreover have "plainName (fileName (flagPattern F) l' x' y')"
        using h nn by (intro fileName_plain [of _ a b c d]) simp_all
      ultimately have "fileName (flagPattern F) l x y = fileName (flagPattern F) l' x' y'"
        using e h unfolding tilePath_def by (auto dest: inj_onD)
      then have "(l, x, y) = (l', x', y')"
        using h nn by (intro fileName_inj [of "flagPattern F" a b c d]) simp_all
      then show "u = v" unfolding uu vv .
    qed
    then show ?thesis
      unfolding p using distinct_pyramidCells length_pyramidCells [OF N assms(3)]
      by (simp add: distinct_map)
  qed
  show ?thesis
    unfolding w
    using main_run(1) [OF assms(1)] distinct_pyramidCells pyramid_set_small [OF assms(3)]
      length_pyramidCells [OF N assms(3)] paths
    unfolding w by blast
qed

theorem C1_run_witness:
  "main_setup exampleWorld exampleFlags = Inr (exampleImage, Bicubic, 1, []) \<and>
   (\<forall>c. createErr exampleWorld c = None \<and> encodeErr exampleWorld c = None) \<and>
   fst (main exampleWorld exampleFlags) = Exit0 \<and>
   set (tilesWritten (trace (snd (main exampleWorld exampleFlags)))) =
     {(0, 0, 0), (1, 0, 0), (1, 1, 0), (1, 0, 1), (1, 1, 1)} \<and>
   length (tilesWritten (trace (snd (main exampleWorld exampleFlags)))) = 5 \<and>
   distinct (pathsWritten (trace (snd (main exampleWorld exampleFlags))))"
proof -
  have s: "main_setup exampleWorld exampleFlags = Inr (exampleImage, Bicubic, 1, [])"
    by (simp add: main_setup_def exampleWorld_def exampleFlags_def lookupInterp_def
        interpFuncs_def validEncodings_def Ext_def ParseInt_def digitVal_def)
  have e: "\<forall>c. createErr exampleWorld c = None \<and> encodeErr exampleWorld c = None"
    by (simp add: exampleWorld_def)
  have pat: "flagPattern exampleFlags = [] @ ''{zoom}'' @ ''_'' @ ''{x}'' @ ''_'' @ ''{y}'' @ ''.png'' \<and>
     CHR ''{'' \<notin> set ([] @ ''_'' @ ''_'' @ ''.png'') \<and> CHR ''/'' \<notin> set ([] @ ''_'' @ ''_'' @ ''.png'') \<and>
     ''_'' \<noteq> [] \<and> \<not> isDigit (hd ''_'') \<and> ''_'' \<noteq> [] \<and> \<not> isDigit (hd ''_'') \<and>
     inj_on (Join exampleWorld (flagOutDir exampleFlags)) {n. plainName n}"
    by (simp add: exampleFlags_def exampleWorld_def isDigit_def inj_on_def)
  have n: "(1 :: int) \<le> 1" "(1 :: int) \<le> 62" by simp_all
  note t = C1_every_coordinate_once [OF s n e, of "[]" "''_''" "''_''" "''.png''"]
  note t1 = t [THEN conjunct1]
    and t3 = t [THEN conjunct2, THEN conjunct2, THEN conjunct1]
    and t4 = t [THEN conjunct2, THEN conjunct2, THEN conjunct2, THEN conjunct1]
    and t5 = t [THEN conjunct2, THEN conjunct2, THEN conjunct2, THEN conjunct2]
  have cells: "{(l, x, y). 0 \<le> l \<and> l \<le> 1 \<and> 0 \<le> x \<and> x < 2 ^ nat l \<and> 0 \<le> y \<and> y < 2 ^ nat l} =
      {(0, 0, 0), (1, 0, 0), (1, 1, 0), (1, 0, 1), (1, 1, 1) :: Coord}"
  proof -
    have l: "(0 \<le> l \<and> l \<le> 1) = (l = 0 \<or> l = 1)" for l :: int by auto
    have x: "(0 \<le> x \<and> x < 2) = (x = 0 \<or> x = 1)" for x :: int by auto
    have y: "(0 \<le> x \<and> x < 1) = (x = 0)" for x :: int by auto
    show ?thesis
    proof (intro set_eqI iffI)
      fix u :: Coord
      assume "u \<in> {(l, x, y). 0 \<le> l \<and> l \<le> 1 \<and> 0 \<le> x \<and> x < 2 ^ nat l \<and> 0 \<le> y \<and> y < 2 ^ nat l}"
      then obtain l x y where u: "u = (l, x, y)" and "0 \<le> l \<and> l \<le> 1"
        and xy: "0 \<le> x \<and> x < 2 ^ nat l" "0 \<le> y \<and> y < 2 ^ nat l" by blast
      then have "l = 0 \<or> l = 1" by (simp only: l)
      then show "u \<in> {(0, 0, 0), (1, 0, 0), (1, 1, 0), (1, 0, 1), (1, 1, 1)}"
      proof
        assume "l = 0"
        with xy have "x = 0" "y = 0" by simp_all
        with \<open>l = 0\<close> u show ?thesis by simp
      next
        assume "l = 1"
        with xy have "x = 0 \<or> x = 1" "y = 0 \<or> y = 1" by (simp_all add: x)
        with \<open>l = 1\<close> u show ?thesis by auto
      qed
    next
      fix u :: Coord
      assume "u \<in> {(0, 0, 0), (1, 0, 0), (1, 1, 0), (1, 0, 1), (1, 1, 1)}"
      then have "u = (0, 0, 0) \<or> u = (1, 0, 0) \<or> u = (1, 1, 0) \<or> u = (1, 0, 1) \<or> u = (1, 1, 1)"
        by simp
      then show "u \<in> {(l, x, y). 0 \<le> l \<and> l \<le> 1 \<and> 0 \<le> x \<and> x < 2 ^ nat l \<and> 0 \<le> y \<and> y < 2 ^ nat l}"
        by (elim disjE) simp_all
    qed
  qed
  have sum: "(\<Sum>L = 0..nat 1. 4 ^ L) = (5 :: nat)" by (simp add: atLeast0AtMost)
  from t5 pat have d: "distinct (pathsWritten (trace (snd (main exampleWorld exampleFlags))))"
    by (rule mp [THEN conjunct1])
  show ?thesis
    using s e t1 t3 [unfolded cells] t4 [unfolded sum] d by (intro conjI)
qed

lemma uint64_int64: "uint64 (int64 n) = uint64 n"
  by (simp add: int64_def uint64_def mod_diff_left_eq)

lemma uint64_id: "0 \<le> n \<Longrightarrow> n < 2 ^ 64 \<Longrightarrow> uint64 n = n"
  by (simp add: uint64_def)

lemma levelWidth_eq:
  fixes T l :: int
  assumes "0 < T" "0 \<le> l" "2 ^ nat l * T < 2 ^ 64"
  shows "levelWidth T l = 2 ^ nat l * T"
proof -
  have "(2 :: int) ^ nat l * 1 \<le> 2 ^ nat l * T"
    using assms(1) by (intro mult_left_mono) simp_all
  then have le: "(2 :: int) ^ nat l \<le> 2 ^ nat l * T" by (simp only: mult_1_right)
  from this assms(3) have p: "(2 :: int) ^ nat l < 2 ^ 64" by (rule le_less_trans)
  then have "nat l < 64"
    by (simp only: power_strict_increasing_iff one_less_numeral_iff semiring_norm)
  with assms(2) have l: "l < 64" by simp
  have "1 * T \<le> 2 ^ nat l * T" using assms(1) by (intro mult_right_mono) simp_all
  with assms(3) have T: "T < 2 ^ 64" by simp
  have ul: "uint64 l = l" using assms(2) l by (intro uint64_id) simp_all
  have s: "uint64 (shiftLeft1 l) = 2 ^ nat l"
    using l p by (simp add: shiftLeft1_def ul uint64_int64 uint64_id)
  have "uint64 T = T" using assms(1) T by (intro uint64_id) simp_all
  moreover have "uint64 (2 ^ nat l * T) = 2 ^ nat l * T"
    using assms(1,3) by (intro uint64_id) simp_all
  ultimately show ?thesis by (simp add: levelWidth_def s)
qed

lemma SplitTiles_raster:
  "\<exists>ts. heap (SplitTiles W F st img T l k) =
     heap st @ Resize W (levelWidth T l) (levelWidth T l) (heap st ! img) k # ts"
proof -
  let ?st1 = "\<lparr>heap = heap st @ [Resize W (levelWidth T l) (levelWidth T l) (heap st ! img) k],
               trace = trace st @ [ResizeCall img (levelWidth T l) (levelWidth T l) k]\<rparr>"
  from cells_heap [of W F "length (heap st)" T l ?st1 "gridCells (shiftLeft1 l)"]
  obtain ts where "heap (foldl (\<lambda>s (x, row). Crop W F s (length (heap st)) T x row l) ?st1
      (gridCells (shiftLeft1 l))) = heap ?st1 @ ts" by blast
  then show ?thesis by (simp add: SplitTiles_def Let_def)
qed

lemma levels_rasters:
  "heap st \<noteq> [] \<Longrightarrow> l \<in> set ls \<Longrightarrow>
   Resize W (levelWidth T l) (levelWidth T l) (heap st ! 0) k \<in>
     set (heap (foldl (\<lambda>st i. SplitTiles W F st 0 T i k) st ls))"
proof (induction ls arbitrary: st)
  case Nil
  then show ?case by simp
next
  case (Cons m ls)
  let ?st' = "SplitTiles W F st 0 T m k"
  obtain ts where st': "heap ?st' =
      heap st @ Resize W (levelWidth T m) (levelWidth T m) (heap st ! 0) k # ts"
    using SplitTiles_raster by blast
  with Cons.prems(1) have ne: "heap ?st' \<noteq> []" and zero: "heap ?st' ! 0 = heap st ! 0"
    by (simp_all add: nth_append)
  obtain ts' where final: "heap (foldl (\<lambda>st i. SplitTiles W F st 0 T i k) ?st' ls) =
      heap ?st' @ ts'"
    using levels_heap by blast
  show ?case
  proof (cases "l = m")
    case True
    then show ?thesis by (simp add: final st')
  next
    case False
    with Cons.prems(2) have "l \<in> set ls" by simp
    from Cons.IH [OF ne this] show ?thesis by (simp add: zero)
  qed
qed

lemma main_rasters:
  assumes "main_setup W F = Inr (img, k, N, out)" "0 \<le> l" "l \<le> N"
  shows "Resize W (levelWidth (flagTileSize F) l) (levelWidth (flagTileSize F) l) img k \<in>
    set (heap (snd (main W F)))"
  using levels_rasters [of "\<lparr>heap = [img], trace = out\<rparr>" l "rev [0..N]" W "flagTileSize F" k F]
    assms
  by (simp add: main_def)

text \<open>
  C6, as stated, fails: the side of the raster is computed in 64 bits. With the default
  tile size 256 and maximum level 56 the product \<open>2 ^ 56 * 256\<close> is \<open>2 ^ 64\<close>, and the first
  request to the resampler, the one of level 56, asks for 0 by 0 pixels.
\<close>

theorem C6_level_56_counterexample:
  "main_setup exampleWorld (exampleFlags\<lparr>args := [''56'', ''source.png'']\<rparr>) =
     Inr (exampleImage, Bicubic, 56, []) \<and>
   hd (resizeCalls (trace (snd (main exampleWorld
      (exampleFlags\<lparr>args := [''56'', ''source.png'']\<rparr>))))) = (0, 0, 0, Bicubic) \<and>
   (2 :: int) ^ 56 * flagTileSize (exampleFlags\<lparr>args := [''56'', ''source.png'']\<rparr>) \<noteq> 0"
proof -
  let ?F = "exampleFlags\<lparr>args := [''56'', ''source.png'']\<rparr>"
  have s: "main_setup exampleWorld ?F = Inr (exampleImage, Bicubic, 56, [])"
    by (simp add: main_setup_def exampleWorld_def exampleFlags_def lookupInterp_def
        interpFuncs_def validEncodings_def Ext_def ParseInt_def digitVal_def)
  have w: "levelWidth 256 56 = 0"
    by (simp add: levelWidth_def shiftLeft1_def uint64_def int64_def)
  have levels: "rev [0..56 :: int] = 56 # rev [0..55]" by (simp add: upto_rec2)
  have T: "flagTileSize ?F = 256" by (simp add: exampleFlags_def)
  have "hd (resizeCalls (trace (snd (main exampleWorld ?F)))) = (0, 0, 0, Bicubic)"
    unfolding main_resizeCalls [OF s] T levels by (simp add: w)
  moreover have "(2 :: int) ^ 56 * flagTileSize ?F \<noteq> 0" by (simp add: exampleFlags_def)
  ultimately show ?thesis using s by blast
qed

text \<open>
  C6, amended. In a run that passes the checks of \<^verbatim>\<open>main\<close> with maximum level \<open>N \<ge> 0\<close> and
  \<open>2 ^ N * tileSize < 2 ^ 64\<close>, the requests to the resampler are, for each level \<open>L\<close> from
  \<open>N\<close> down to 0, one request for \<open>2 ^ L * tileSize\<close> by \<open>2 ^ L * tileSize\<close> pixels whose
  source is the buffer at address 0 and whose kernel is the one \<^verbatim>\<open>main\<close> looked up, which
  is the kernel named by \<^verbatim>\<open>-interp\<close> when that name is in the table. The buffer at address
  0 holds the decoded source image, and the raster of every level, the result of the
  request on that image, is a buffer of the run.
\<close>

theorem C6_every_level_resampled_from_source:
  assumes "main_setup W F = Inr (img, k, N, out)" and "0 \<le> N"
    and "2 ^ nat N * flagTileSize F < 2 ^ 64"
  shows "resizeCalls (trace (snd (main W F))) =
      map (\<lambda>L. (0, 2 ^ nat L * flagTileSize F, 2 ^ nat L * flagTileSize F, k)) (rev [0..N]) \<and>
    heap (snd (main W F)) ! 0 = img \<and>
    (\<forall>L \<in> set [0..N].
       Resize W (2 ^ nat L * flagTileSize F) (2 ^ nat L * flagTileSize F) img k \<in>
         set (heap (snd (main W F)))) \<and>
    (\<forall>k'. map_of interpFuncs (flagInterpFunc F) = Some k' \<longrightarrow> k = k')"
proof -
  note T = setup_facts(1) [OF assms(1)]
  have w: "levelWidth (flagTileSize F) L = 2 ^ nat L * flagTileSize F" if "L \<in> set [0..N]" for L
  proof -
    from that have L: "0 \<le> L" "L \<le> N" by simp_all
    then have "(2 :: int) ^ nat L \<le> 2 ^ nat N" by (intro power_increasing) simp_all
    then have "2 ^ nat L * flagTileSize F \<le> 2 ^ nat N * flagTileSize F"
      using T by (intro mult_right_mono) simp_all
    with assms(3) have "2 ^ nat L * flagTileSize F < 2 ^ 64" by simp
    with T L(1) show ?thesis by (intro levelWidth_eq)
  qed
  have calls: "resizeCalls (trace (snd (main W F))) =
      map (\<lambda>L. (0, 2 ^ nat L * flagTileSize F, 2 ^ nat L * flagTileSize F, k)) (rev [0..N])"
    unfolding main_resizeCalls [OF assms(1)] using w by (intro map_cong) simp_all
  have rasters: "Resize W (2 ^ nat L * flagTileSize F) (2 ^ nat L * flagTileSize F) img k \<in>
      set (heap (snd (main W F)))" if "L \<in> set [0..N]" for L
    using main_rasters [OF assms(1), of L] that w [OF that] by simp
  have kernel: "k = k'" if "map_of interpFuncs (flagInterpFunc F) = Some k'" for k'
    using setup_facts(4) [OF assms(1)] that by (simp add: lookupInterp_def)
  from calls main_source_kept [OF assms(1)] rasters kernel show ?thesis by blast
qed

theorem C6_resample_witness:
  "main_setup exampleWorld exampleFlags = Inr (exampleImage, Bicubic, 1, []) \<and>
   (2 :: int) ^ nat 1 * flagTileSize exampleFlags < 2 ^ 64 \<and>
   resizeCalls (trace (snd (main exampleWorld exampleFlags))) =
     [(0, 512, 512, Bicubic), (0, 256, 256, Bicubic)] \<and>
   heap (snd (main exampleWorld exampleFlags)) ! 0 = exampleImage \<and>
   Resize exampleWorld 512 512 exampleImage Bicubic \<in> set (heap (snd (main exampleWorld exampleFlags))) \<and>
   map_of interpFuncs (flagInterpFunc exampleFlags) = Some Bicubic"
proof -
  have s: "main_setup exampleWorld exampleFlags = Inr (exampleImage, Bicubic, 1, [])"
    by (simp add: main_setup_def exampleWorld_def exampleFlags_def lookupInterp_def
        interpFuncs_def validEncodings_def Ext_def ParseInt_def digitVal_def)
  have n: "(0 :: int) \<le> 1" "(2 :: int) ^ nat 1 * flagTileSize exampleFlags < 2 ^ 64"
    by (simp_all add: exampleFlags_def)
  note t = C6_every_level_resampled_from_source [OF s n]
  note t1 = t [THEN conjunct1] and t2 = t [THEN conjunct2, THEN conjunct1]
    and t3 = t [THEN conjunct2, THEN conjunct2, THEN conjunct1]
  have levels: "rev [0..1 :: int] = [1, 0]" by (simp add: upto_rec1)
  have T: "flagTileSize exampleFlags = 256" by (simp add: exampleFlags_def)
  from t1 have c: "resizeCalls (trace (snd (main exampleWorld exampleFlags))) =
      [(0, 512, 512, Bicubic), (0, 256, 256, Bicubic)]"
    unfolding levels T by simp
  have "(1 :: int) \<in> set [0..1]" by simp
  with t3 have "Resize exampleWorld (2 ^ nat 1 * flagTileSize exampleFlags)
      (2 ^ nat 1 * flagTileSize exampleFlags) exampleImage Bicubic \<in>
      set (heap (snd (main exampleWorld exampleFlags)))" by (rule bspec)
  then have r: "Resize exampleWorld 512 512 exampleImage Bicubic \<in>
      set (heap (snd (main exampleWorld exampleFlags)))" unfolding T by simp
  have m: "map_of interpFuncs (flagInterpFunc exampleFlags) = Some Bicubic"
    by (simp add: interpFuncs_def exampleFlags_def)
  from s n(2) c t2 r m show ?thesis by (intro conjI)
qed

lemma setup_noTileErrors: "main_setup (noTileErrors W) F = main_setup W F"
proof -
  have f: "Stat (noTileErrors W) = Stat W" "MkdirAll (noTileErrors W) = MkdirAll W"
    "Open (noTileErrors W) = Open W" "pngDecode (noTileErrors W) = pngDecode W"
    "bmpDecode (noTileErrors W) = bmpDecode W"
    by (simp_all add: noTileErrors_def)
  show ?thesis unfolding main_setup_def f by (rule refl)
qed

lemma pyramidCells_1: "pyramidCells 1 = [(1, 0, 0), (1, 1, 0), (1, 0, 1), (1, 1, 1), (0, 0, 0)]"
proof -
  have "shiftLeft1 1 = 2" "shiftLeft1 0 = 1" by (simp_all add: shiftLeft1_def uint64_def int64_def)
  moreover have "rev [0..1 :: int] = [1, 0]" by (simp add: upto_rec1)
  moreover have "gridCells 2 = [(0, 0), (1, 0), (0, 1), (1, 1)]" "gridCells 1 = [(0, 0)]"
    by (simp_all add: gridCells_def upto_rec1)
  ultimately show ?thesis by (simp add: pyramidCells_def)
qed

text \<open>
  C8. In a run that passes the checks of \<^verbatim>\<open>main\<close>, whatever creates and encodings fail:
  \<^verbatim>\<open>main\<close> returns normally, as in the run without tile errors; the tiles attempted are
  the tiles which that run writes; the tiles written are the attempted ones whose create
  and encode did not fail; and what is logged is one line for each failing tile, its
  error.
\<close>

theorem C8_tile_errors_are_local:
  assumes "main_setup W F = Inr (img, k, N, out)"
  shows "fst (main W F) = Exit0 \<and> fst (main (noTileErrors W) F) = Exit0 \<and>
    tilesAttempted (trace (snd (main W F))) =
      tilesWritten (trace (snd (main (noTileErrors W) F))) \<and>
    tilesWritten (trace (snd (main W F))) =
      filter (\<lambda>c. createErr W c = None \<and> encodeErr W c = None)
        (tilesAttempted (trace (snd (main W F)))) \<and>
    logged (trace (snd (main W F))) =
      concat (map (tileError W) (tilesAttempted (trace (snd (main W F)))))"
proof -
  have s': "main_setup (noTileErrors W) F = Inr (img, k, N, out)"
    using assms by (simp only: setup_noTileErrors)
  have "tilesWritten (trace (snd (main (noTileErrors W) F))) = pyramidCells N"
    unfolding main_written [OF s'] by (simp add: noTileErrors_def)
  then show ?thesis
    using main_run(1) [OF assms] main_run(1) [OF s']
    by (simp only: main_attempted [OF assms] main_written [OF assms] main_logged [OF assms]
        simp_thms)
qed

theorem C8_tile_errors_witness:
  "main_setup
     (exampleWorld\<lparr>createErr := (\<lambda>c. if c = (1, 1, 0) then Some ''permission denied'' else None),
                   encodeErr := (\<lambda>c. if c = (1, 0, 1) then Some ''disk full'' else None)\<rparr>)
     exampleFlags = Inr (exampleImage, Bicubic, 1, []) \<and>
   fst (main
     (exampleWorld\<lparr>createErr := (\<lambda>c. if c = (1, 1, 0) then Some ''permission denied'' else None),
                   encodeErr := (\<lambda>c. if c = (1, 0, 1) then Some ''disk full'' else None)\<rparr>)
     exampleFlags) = Exit0 \<and>
   tilesWritten (trace (snd (main
     (exampleWorld\<lparr>createErr := (\<lambda>c. if c = (1, 1, 0) then Some ''permission denied'' else None),
                   encodeErr := (\<lambda>c. if c = (1, 0, 1) then Some ''disk full'' else None)\<rparr>)
     exampleFlags))) = [(1, 0, 0), (1, 1, 1), (0, 0, 0)] \<and>
   logged (trace (snd (main
     (exampleWorld\<lparr>createErr := (\<lambda>c. if c = (1, 1, 0) then Some ''permission denied'' else None),
                   encodeErr := (\<lambda>c. if c = (1, 0, 1) then Some ''disk full'' else None)\<rparr>)
     exampleFlags))) = [''permission denied'', ''disk full'']"
proof -
  let ?W = "exampleWorld\<lparr>createErr := (\<lambda>c. if c = (1, 1, 0) then Some ''permission denied'' else None),
                   encodeErr := (\<lambda>c. if c = (1, 0, 1) then Some ''disk full'' else None)\<rparr>"
  have s: "main_setup ?W exampleFlags = Inr (exampleImage, Bicubic, 1, [])"
    by (simp add: main_setup_def exampleWorld_def exampleFlags_def lookupInterp_def
        interpFuncs_def validEncodings_def Ext_def ParseInt_def digitVal_def)
  note t = C8_tile_errors_are_local [OF s]
  note t1 = t [THEN conjunct1]
    and t4 = t [THEN conjunct2, THEN conjunct2, THEN conjunct2, THEN conjunct1]
    and t5 = t [THEN conjunct2, THEN conjunct2, THEN conjunct2, THEN conjunct2]
  have a: "tilesAttempted (trace (snd (main ?W exampleFlags))) =
      [(1, 0, 0), (1, 1, 0), (1, 0, 1), (1, 1, 1), (0, 0, 0)]"
    by (simp only: main_attempted [OF s] pyramidCells_1)
  have w: "tilesWritten (trace (snd (main ?W exampleFlags))) = [(1, 0, 0), (1, 1, 1), (0, 0, 0)]"
    unfolding t4 a by simp
  have l: "logged (trace (snd (main ?W exampleFlags))) = [''permission denied'', ''disk full'']"
    unfolding t5 a by (simp add: tileError_def)
  from s t1 w l show ?thesis by (intro conjI)
qed

lemma setup_quality: "main_setup W (F\<lparr>flagJpegQuality := q\<rparr>) = main_setup W F"
proof -
  have f: "flagTileSize (F\<lparr>flagJpegQuality := q\<rparr>) = flagTileSize F"
    "flagInterpFunc (F\<lparr>flagJpegQuality := q\<rparr>) = flagInterpFunc F"
    "flagEncoding (F\<lparr>flagJpegQuality := q\<rparr>) = flagEncoding F"
    "flagOutDir (F\<lparr>flagJpegQuality := q\<rparr>) = flagOutDir F"
    "args (F\<lparr>flagJpegQuality := q\<rparr>) = args F"
    by simp_all
  show ?thesis unfolding main_setup_def f by (rule refl)
qed

lemma main_encoders:
  assumes "main_setup W F = Inr (img, k, N, out)"
  shows "encodersUsed (trace (snd (main W F))) =
    concat (map (\<lambda>c. if createErr W c = None
                       then (if flagEncoding F = ''png'' then [(c, PNG)]
                             else if flagEncoding F = ''jpeg''
                             then [(c, JPEG (flagJpegQuality F))]
                             else [])
                       else []) (pyramidCells N))"
proof -
  let ?enc = "\<lambda>c. if createErr W c = None
                   then (if flagEncoding F = ''png'' then [(c, PNG)]
                         else if flagEncoding F = ''jpeg''
                         then [(c, JPEG (flagJpegQuality F))]
                         else [])
                   else []"
  have level: "encodersUsed (levelEvents W F T k l) =
      concat (map ?enc (map (Pair l) (gridCells (shiftLeft1 l))))" for T l
    using concat_map_cells [of ?enc l "gridCells (shiftLeft1 l)"]
    by (simp add: obs_levelEvents obs_writeTile)
  have "encodersUsed (trace (snd (main W F))) = encodersUsed (skeleton (trace (snd (main W F))))"
    by (simp only: obs_skeleton)
  also have "\<dots> = concat (map (\<lambda>l. encodersUsed (levelEvents W F (flagTileSize F) k l)) (rev [0..N]))"
    unfolding main_run(2) [OF assms]
    by (simp add: obs_skeleton obs_concat setup_facts(9) [OF assms] comp_def)
  finally show ?thesis
    by (simp only: level pyramidCells_def concat_map_levels)
qed

lemma concat_filter_map:
  "concat (map (\<lambda>c. if P c then [f c] else []) cs) = map f (filter P cs)"
  by (induction cs) simp_all

lemma jpeg_encoders:
  assumes "main_setup W F = Inr (img, k, N, out)" "flagEncoding F = ''jpeg''"
  shows "encodersUsed (trace (snd (main W F))) =
    map (\<lambda>c. (c, JPEG (flagJpegQuality F))) (filter (\<lambda>c. createErr W c = None) (pyramidCells N))"
proof -
  have "(\<lambda>c. if createErr W c = None
              then (if flagEncoding F = ''png'' then [(c, PNG)]
                    else if flagEncoding F = ''jpeg''
                    then [(c, JPEG (flagJpegQuality F))]
                    else [])
              else []) =
        (\<lambda>c. if createErr W c = None then [(c, JPEG (flagJpegQuality F))] else [])"
    by (simp add: assms(2) fun_eq_iff)
  then show ?thesis
    unfolding main_encoders [OF assms(1)] by (simp only: concat_filter_map)
qed

lemma written_any_quality:
  "tilesWritten (trace (snd (main W (F\<lparr>flagJpegQuality := q\<rparr>)))) =
   tilesWritten (trace (snd (main W F)))"
proof (cases "main_setup W F")
  case (Inl r)
  then show ?thesis by (simp add: main_def setup_quality)
next
  case (Inr r)
  obtain img k N out where r: "r = (img, k, N, out)" by (cases r)
  from Inr have s: "main_setup W F = Inr (img, k, N, out)" unfolding r .
  then have s': "main_setup W (F\<lparr>flagJpegQuality := q\<rparr>) = Inr (img, k, N, out)"
    by (simp only: setup_quality)
  show ?thesis by (simp only: main_written [OF s] main_written [OF s'])
qed

lemma png_ignores_quality:
  assumes "flagEncoding F = ''png''"
  shows "main W (F\<lparr>flagJpegQuality := q\<rparr>) = main W F"
proof -
  have w: "writeTile W (F\<lparr>flagJpegQuality := q\<rparr>) c path t = writeTile W F c path t"
    for c path and t :: "'a Image"
    using assms by (simp add: writeTile_def)
  have "Crop W (F\<lparr>flagJpegQuality := q\<rparr>) st img T x y l = Crop W F st img T x y l"
    for st img T x y l
    by (simp add: Crop_def w tilePath_def)
  then have "SplitTiles W (F\<lparr>flagJpegQuality := q\<rparr>) st img T l k = SplitTiles W F st img T l k"
    for st img T l k
    by (simp add: SplitTiles_def)
  then have sp: "SplitTiles W (F\<lparr>flagJpegQuality := q\<rparr>) = SplitTiles W F"
    by (intro ext)
  have f: "flagTileSize (F\<lparr>flagJpegQuality := q\<rparr>) = flagTileSize F" by simp
  show ?thesis unfolding main_def setup_quality sp f by (rule refl)
qed

text \<open>
  C10. The value of \<^verbatim>\<open>-q\<close> is never checked. For every integer \<open>q\<close>, the checks of \<^verbatim>\<open>main\<close>
  end as they end for any other value, and the run writes the same tiles. When the
  encoding is \<open>jpeg\<close> and the checks pass, the encoder is called once for every tile of
  the pyramid whose file was created (for every tile, when no creation fails), each time
  with the quality \<open>q\<close> itself. When the encoding is \<open>png\<close>, the whole run, its result, its
  buffers and its trace, is the one of any other value.
\<close>

theorem C10_quality_is_not_validated:
  "main_setup W (F\<lparr>flagJpegQuality := q\<rparr>) = main_setup W F \<and>
   tilesWritten (trace (snd (main W (F\<lparr>flagJpegQuality := q\<rparr>)))) =
     tilesWritten (trace (snd (main W F))) \<and>
   (flagEncoding F = ''jpeg'' \<longrightarrow>
      (\<forall>img k N out. main_setup W F = Inr (img, k, N, out) \<longrightarrow>
         encodersUsed (trace (snd (main W (F\<lparr>flagJpegQuality := q\<rparr>)))) =
           map (\<lambda>c. (c, JPEG q)) (filter (\<lambda>c. createErr W c = None) (pyramidCells N)))) \<and>
   (flagEncoding F = ''png'' \<longrightarrow> main W (F\<lparr>flagJpegQuality := q\<rparr>) = main W F)"
proof (intro conjI impI allI)
  show "main_setup W (F\<lparr>flagJpegQuality := q\<rparr>) = main_setup W F" by (rule setup_quality)
  show "tilesWritten (trace (snd (main W (F\<lparr>flagJpegQuality := q\<rparr>)))) =
      tilesWritten (trace (snd (main W F)))"
    by (rule written_any_quality)
  show "encodersUsed (trace (snd (main W (F\<lparr>flagJpegQuality := q\<rparr>)))) =
      map (\<lambda>c. (c, JPEG q)) (filter (\<lambda>c. createErr W c = None) (pyramidCells N))"
    if "flagEncoding F = ''jpeg''" and "main_setup W F = Inr (img, k, N, out)" for img k N out
  proof -
    have e: "flagEncoding (F\<lparr>flagJpegQuality := q\<rparr>) = ''jpeg''" using that(1) by simp
    have s: "main_setup W (F\<lparr>flagJpegQuality := q\<rparr>) = Inr (img, k, N, out)"
      using that(2) by (simp only: setup_quality)
    from jpeg_encoders [OF s e] show ?thesis by simp
  qed
  show "main W (F\<lparr>flagJpegQuality := q\<rparr>) = main W F" if "flagEncoding F = ''png''"
    using that by (rule png_ignores_quality)
qed

theorem C10_quality_witness:
  "main_setup exampleWorld (exampleFlags\<lparr>flagEncoding := ''jpeg''\<rparr>) =
     Inr (exampleImage, Bicubic, 1, []) \<and>
   encodersUsed (trace (snd (main exampleWorld
     (exampleFlags\<lparr>flagEncoding := ''jpeg'', flagJpegQuality := - 7\<rparr>)))) =
     [((1, 0, 0), JPEG (- 7)), ((1, 1, 0), JPEG (- 7)), ((1, 0, 1), JPEG (- 7)),
      ((1, 1, 1), JPEG (- 7)), ((0, 0, 0), JPEG (- 7))] \<and>
   flagEncoding exampleFlags = ''png'' \<and>
   main exampleWorld (exampleFlags\<lparr>flagJpegQuality := 1000\<rparr>) = main exampleWorld exampleFlags"
proof -
  let ?J = "exampleFlags\<lparr>flagEncoding := ''jpeg''\<rparr>"
  have s: "main_setup exampleWorld ?J = Inr (exampleImage, Bicubic, 1, [])"
    by (simp add: main_setup_def exampleWorld_def exampleFlags_def lookupInterp_def
        interpFuncs_def validEncodings_def Ext_def ParseInt_def digitVal_def)
  have j: "flagEncoding ?J = ''jpeg''" by simp
  have p: "flagEncoding exampleFlags = ''png''" by (simp add: exampleFlags_def)
  note tj = C10_quality_is_not_validated [where W = exampleWorld and F = ?J and q = "- 7",
      THEN conjunct2, THEN conjunct2, THEN conjunct1, rule_format, OF j s]
  note tp = C10_quality_is_not_validated [where W = exampleWorld and F = exampleFlags and q = 1000,
      THEN conjunct2, THEN conjunct2, THEN conjunct2, rule_format, OF p]
  have "encodersUsed (trace (snd (main exampleWorld (?J\<lparr>flagJpegQuality := - 7\<rparr>)))) =
     [((1, 0, 0), JPEG (- 7)), ((1, 1, 0), JPEG (- 7)), ((1, 0, 1), JPEG (- 7)),
      ((1, 1, 1), JPEG (- 7)), ((0, 0, 0), JPEG (- 7))]"
    unfolding tj pyramidCells_1 by (simp add: exampleWorld_def)
  then have e: "encodersUsed (trace (snd (main exampleWorld
     (exampleFlags\<lparr>flagEncoding := ''jpeg'', flagJpegQuality := - 7\<rparr>)))) =
     [((1, 0, 0), JPEG (- 7)), ((1, 1, 0), JPEG (- 7)), ((1, 0, 1), JPEG (- 7)),
      ((1, 1, 1), JPEG (- 7)), ((0, 0, 0), JPEG (- 7))]"
    by simp
  from s e p tp show ?thesis by (intro conjI)
qed

lemma tilesEncoded_append [simp]: "tilesEncoded (a @ b) = tilesEncoded a @ tilesEncoded b"
  by (simp add: tilesEncoded_def)

lemma tilesEncoded_Nil [simp]: "tilesEncoded [] = []"
  by (simp add: tilesEncoded_def)

lemma tilesEncoded_Cons: "tilesEncoded (e # tr) = encodedAt e @ tilesEncoded tr"
  by (simp add: tilesEncoded_def)

lemma tilesEncoded_writeTile:
  assumes "flagEncoding F \<in> set validEncodings"
  shows "tilesEncoded (writeTile W F c path t) = (if createErr W c = None then [(c, t)] else [])"
  using assms
  by (auto simp: writeTile_def tilesEncoded_Cons validEncodings_def split: option.splits)

lemma tilesEncoded_Stderr: "tilesEncoded (map (\<lambda>x. Stderr (g x)) xs) = []"
  by (induction xs) (simp_all add: tilesEncoded_Cons)

lemma tilesEncoded_setup:
  assumes "main_setup W F = Inr (img, k, N, out)"
  shows "tilesEncoded out = []"
  using assms
  by (auto simp: main_setup_def Let_def tilesEncoded_Cons tilesEncoded_Stderr comp_def
      split: if_splits prod.splits StatResult.splits option.splits sum.splits)

text \<open>
  What \<^verbatim>\<open>Crop\<close> does to the buffers, whatever the raster: one buffer more, at a new
  address, and the tile given to \<open>writeTile\<close> is the contents of that buffer.
\<close>

lemma Crop_fresh:
  "\<exists>tile. heap (Crop W F st img T x y l) = heap st @ [tile] \<and>
     trace (Crop W F st img T x y l) =
       trace st @ writeTile W F (l, x, y) (tilePath W F l x y) tile"
  by (simp add: Crop_def cropTile_def NewRGBA_def Draw_def Let_def)

text \<open>The tile depends on the raster only, not on the other buffers.\<close>

lemma cropTile_local:
  assumes "img < length h"
  shows "cropTile W h img T x y = (length h, h @ [last (snd (cropTile W [h ! img] 0 T x y))])"
  using assms
  by (simp add: cropTile_def NewRGBA_def Draw_def Let_def nth_append cong: if_cong)

lemma Crop_tile:
  assumes "img < length (heap st)"
  shows "heap (Crop W F st img T x y l) =
      heap st @ [last (snd (cropTile W [heap st ! img] 0 T x y))]"
    and "trace (Crop W F st img T x y l) =
      trace st @ writeTile W F (l, x, y) (tilePath W F l x y)
        (last (snd (cropTile W [heap st ! img] 0 T x y)))"
  unfolding Crop_def cropTile_local [OF assms] by (simp_all add: Let_def)

lemma cells_tiles:
  assumes "flagEncoding F \<in> set validEncodings" "r < length (heap st)"
  shows "tilesEncoded (trace (foldl (\<lambda>s (x, row). Crop W F s r T x row l) st cells)) =
      tilesEncoded (trace st) @
      concat (map (\<lambda>(x, row). if createErr W (l, x, row) = None
                     then [((l, x, row), last (snd (cropTile W [heap st ! r] 0 T x row)))]
                     else []) cells)"
  using assms(2)
proof (induction cells arbitrary: st)
  case Nil
  then show ?case by simp
next
  case (Cons c cells)
  obtain x row where c: "c = (x, row)" by (cases c)
  let ?st' = "Crop W F st r T x row l"
  note step = Crop_tile [OF Cons.prems, of W F T x row l]
  have r': "r < length (heap ?st')" using Cons.prems by (simp add: step(1))
  have same: "heap ?st' ! r = heap st ! r" using Cons.prems by (simp add: step(1) nth_append)
  show ?case
    using Cons.IH [OF r', unfolded same]
    by (simp add: c step(2) tilesEncoded_writeTile [OF assms(1)])
qed

lemma SplitTiles_tiles:
  assumes "flagEncoding F \<in> set validEncodings"
  shows "tilesEncoded (trace (SplitTiles W F st img T l k)) =
      tilesEncoded (trace st) @
      concat (map (\<lambda>(x, row). if createErr W (l, x, row) = None
                     then [((l, x, row),
                            last (snd (cropTile W
                              [Resize W (levelWidth T l) (levelWidth T l) (heap st ! img) k]
                              0 T x row)))]
                     else []) (gridCells (shiftLeft1 l)))"
proof -
  let ?st1 = "\<lparr>heap = heap st @ [Resize W (levelWidth T l) (levelWidth T l) (heap st ! img) k],
               trace = trace st @ [ResizeCall img (levelWidth T l) (levelWidth T l) k]\<rparr>"
  have r: "length (heap st) < length (heap ?st1)" by simp
  have raster: "heap ?st1 ! length (heap st) =
      Resize W (levelWidth T l) (levelWidth T l) (heap st ! img) k" by simp
  show ?thesis
    unfolding SplitTiles_def Let_def cells_tiles [OF assms r] raster
    by (simp add: tilesEncoded_Cons)
qed

lemma levels_tiles:
  assumes "flagEncoding F \<in> set validEncodings" "heap st \<noteq> []"
  shows "tilesEncoded (trace (foldl (\<lambda>st i. SplitTiles W F st 0 T i k) st ls)) =
      tilesEncoded (trace st) @
      concat (map (\<lambda>l. concat (map (\<lambda>(x, row). if createErr W (l, x, row) = None
                     then [((l, x, row),
                            last (snd (cropTile W
                              [Resize W (levelWidth T l) (levelWidth T l) (heap st ! 0) k]
                              0 T x row)))]
                     else []) (gridCells (shiftLeft1 l)))) ls)"
  using assms(2)
proof (induction ls arbitrary: st)
  case Nil
  then show ?case by simp
next
  case (Cons m ls)
  let ?st' = "SplitTiles W F st 0 T m k"
  from SplitTiles_heap [of W F st 0 T m k] obtain ts where h: "heap ?st' = heap st @ ts"
    by blast
  with Cons.prems have ne: "heap ?st' \<noteq> []" and same: "heap ?st' ! 0 = heap st ! 0"
    by (simp_all add: nth_append)
  show ?case
    using Cons.IH [OF ne, unfolded same] by (simp add: SplitTiles_tiles [OF assms(1)])
qed

text \<open>
  The tiles that a run hands to its encoder: for every coordinate whose file was
  created, what \<open>cropTile\<close> cuts from the raster of the level.
\<close>

lemma main_tiles:
  assumes "main_setup W F = Inr (img, k, N, out)"
  shows "tilesEncoded (trace (snd (main W F))) =
    concat (map (\<lambda>(l, x, y). if createErr W (l, x, y) = None
                   then [((l, x, y),
                          last (snd (cropTile W
                            [Resize W (levelWidth (flagTileSize F) l)
                               (levelWidth (flagTileSize F) l) img k]
                            0 (flagTileSize F) x y)))]
                   else []) (pyramidCells N))"
proof -
  let ?g = "\<lambda>(l, x, y). if createErr W (l, x, y) = None
              then [((l, x, y),
                     last (snd (cropTile W
                       [Resize W (levelWidth (flagTileSize F) l)
                          (levelWidth (flagTileSize F) l) img k]
                       0 (flagTileSize F) x y)))]
              else []"
  have cells: "concat (map (\<lambda>(x, row). ?g (l, x, row)) cs) = concat (map ?g (map (Pair l) cs))"
    for l cs
    by (rule concat_map_cells)
  have "tilesEncoded (trace (snd (main W F))) =
      concat (map (\<lambda>l. concat (map (\<lambda>(x, row). ?g (l, x, row)) (gridCells (shiftLeft1 l))))
        (rev [0..N]))"
  proof -
    have ne: "heap \<lparr>heap = [img], trace = out\<rparr> \<noteq> []"
      and first: "heap \<lparr>heap = [img], trace = out\<rparr> ! 0 = img" by simp_all
    show ?thesis
      using levels_tiles [OF setup_facts(2) [OF assms] ne, of W "flagTileSize F" k "rev [0..N]",
          unfolded first]
      by (simp add: main_def assms tilesEncoded_setup [OF assms])
  qed
  also have "\<dots> = concat (map ?g (pyramidCells N))"
    unfolding cells pyramidCells_def by (rule concat_map_levels)
  finally show ?thesis .
qed

lemma fst_encoded:
  "map fst (concat (map (\<lambda>c. if P c then [(c, g c)] else []) cs)) = filter P cs"
  by (induction cs) simp_all

lemma encoded_member:
  assumes "(c, t) \<in> set (concat (map (\<lambda>c. if P c then [(c, g c)] else []) cs))"
  shows "c \<in> set cs \<and> P c \<and> t = g c"
  using assms by (induction cs) (auto split: if_splits)

lemma level_le_fits:
  fixes T l N :: int
  assumes "0 < T" "0 \<le> l" "l \<le> N" "2 ^ nat N * T < 2 ^ 63"
  shows "2 ^ nat l * T < 2 ^ 63"
proof -
  have "nat l \<le> nat N" using assms(2,3) by simp
  then have "(2 :: int) ^ nat l \<le> 2 ^ nat N" by (intro power_increasing) simp_all
  then have "2 ^ nat l * T \<le> 2 ^ nat N * T" using assms(1) by (intro mult_right_mono) simp_all
  with assms(4) show ?thesis by simp
qed

lemma cells_as_coords:
  "(\<lambda>(l, x, y). if P (l, x, y) then [((l, x, y), g l x y)] else []) =
   (\<lambda>c. if P c then [(c, (\<lambda>(l, x, y). g l x y) c)] else [])"
  by (simp add: fun_eq_iff)

text \<open>
  C4, as stated, fails: the tile is an \<^verbatim>\<open>*image.RGBA\<close>, and \<^verbatim>\<open>draw.Draw\<close> stores every colour
  it copies in the colour model of its destination. When the raster holds deeper
  colours, the pixel of the tile is the converted colour, not the pixel of the raster.
  In the run below, on a raster of 16-bit values with tiles of 2 by 2 pixels, the raster
  has 12561 at \<open>(3, 1)\<close> and the tile of coordinate \<open>(1, 1, 0)\<close> has 49 at \<open>(1, 1)\<close>.
\<close>

theorem C4_converted_pixel_counterexample:
  "main_setup exampleWorld16 (exampleFlags\<lparr>flagTileSize := 2\<rparr>) =
     Inr (exampleImage, Bicubic, 1, []) \<and>
   fst (tilesEncoded (trace (snd (main exampleWorld16 (exampleFlags\<lparr>flagTileSize := 2\<rparr>)))) ! 1) =
     (1, 1, 0) \<and>
   At (snd (tilesEncoded (trace (snd (main exampleWorld16 (exampleFlags\<lparr>flagTileSize := 2\<rparr>)))) ! 1))
     (1, 1) = 49 \<and>
   At (Resize exampleWorld16 (2 ^ 1 * 2) (2 ^ 1 * 2) exampleImage Bicubic) (1 * 2 + 1, 0 * 2 + 1) =
     12561"
proof -
  let ?F = "exampleFlags\<lparr>flagTileSize := 2\<rparr>"
  have s: "main_setup exampleWorld16 ?F = Inr (exampleImage, Bicubic, 1, [])"
    by (simp add: main_setup_def exampleWorld16_def exampleWorld_def exampleFlags_def
        lookupInterp_def interpFuncs_def validEncodings_def Ext_def ParseInt_def digitVal_def)
  have w: "levelWidth 2 1 = 4"
    by (simp add: levelWidth_def shiftLeft1_def uint64_def int64_def)
  have tile: "At (last (snd (cropTile exampleWorld16
      [Resize exampleWorld16 4 4 exampleImage Bicubic] 0 2 1 0))) (1, 1) = 49"
  proof -
    let ?h = "[Resize exampleWorld16 4 4 exampleImage Bicubic]"
    obtain dst h' where c: "cropTile exampleWorld16 ?h 0 2 1 0 = (dst, h')"
      by (cases "cropTile exampleWorld16 ?h 0 2 1 0") blast
    have len: "0 < length ?h" by simp
    have b: "Bounds (?h ! 0) = Rect 0 0 (2 * 2) (2 * 2)"
      by (simp add: exampleWorld16_def exampleWorld_def)
    have "dst = length ?h \<and> length h' = Suc (length ?h) \<and> take (length ?h) h' = ?h \<and>
      Bounds (h' ! dst) = Rect 0 0 2 2 \<and>
      Dx (Bounds (h' ! dst)) = 2 \<and> Dy (Bounds (h' ! dst)) = 2 \<and>
      (\<forall>i j. 0 \<le> i \<and> i < 2 \<and> 0 \<le> j \<and> j < 2 \<longrightarrow>
         At (h' ! dst) (i, j) = RGBAModel exampleWorld16 (At (?h ! 0) (1 * 2 + i, 0 * 2 + j)))"
      by (rule cropTile_cell [OF len b _ _ _ _ _ _ c]) simp_all
    then have "dst = length ?h" and "length h' = Suc (length ?h)"
      and px: "\<forall>i j. 0 \<le> i \<and> i < 2 \<and> 0 \<le> j \<and> j < 2 \<longrightarrow>
         At (h' ! dst) (i, j) = RGBAModel exampleWorld16 (At (?h ! 0) (1 * 2 + i, 0 * 2 + j))"
      by blast+
    then have dst: "dst = 1" and h': "length h' = 2" by simp_all
    from px have "At (h' ! dst) (1, 1) =
        RGBAModel exampleWorld16 (At (?h ! 0) (1 * 2 + 1, 0 * 2 + 1))"
      by (elim allE [of _ 1]) simp
    also have "\<dots> = 49" by (simp add: exampleWorld16_def exampleWorld_def)
    finally have "At (h' ! dst) (1, 1) = 49" .
    moreover have "last h' = h' ! dst" using dst h' by (cases h') (auto simp: last_conv_nth)
    ultimately show ?thesis using c by simp
  qed
  have c: "createErr exampleWorld16 = (\<lambda>c. None)"
    by (simp add: exampleWorld16_def exampleWorld_def)
  have second: "tilesEncoded (trace (snd (main exampleWorld16 ?F))) ! 1 =
      ((1, 1, 0), last (snd (cropTile exampleWorld16
         [Resize exampleWorld16 4 4 exampleImage Bicubic] 0 2 1 0)))"
    unfolding main_tiles [OF s] pyramidCells_1 c by (simp add: w)
  have "At (Resize exampleWorld16 (2 ^ 1 * 2) (2 ^ 1 * 2) exampleImage Bicubic)
      (1 * 2 + 1, 0 * 2 + 1) = 12561"
    by (simp add: exampleWorld16_def exampleWorld_def)
  with s tile show ?thesis by (simp only: second fst_conv snd_conv simp_thms)
qed

text \<open>
  C4, amended. Take a run whose checks pass, whose rasters are Go images (their side
  \<open>2 ^ level * tileSize\<close> is an \<^verbatim>\<open>int\<close>) and whose resampler returns a raster of the size it
  is asked for. Every call of \<^verbatim>\<open>Crop\<close> puts its tile in one new buffer, leaves every
  existing buffer, the raster included, as it was, and hands that new buffer to the
  encoder when the tile's file was created. The encoder receives one tile for every
  coordinate of the pyramid whose file was created. The tile of coordinate
  \<open>(level, x, y)\<close> is a square of \<open>tileSize\<close> pixels from \<open>(0, 0)\<close>, and its pixel at \<open>(i, j)\<close>
  is the pixel at \<open>(x * tileSize + i, y * tileSize + j)\<close> of the raster of that level,
  converted to the RGBA colour model of the tile and not resampled.
\<close>

theorem C4_tile_is_converted_copy_of_its_cell:
  assumes "main_setup W F = Inr (img, k, N, out)"
    and "2 ^ nat N * flagTileSize F < 2 ^ 63"
    and "\<forall>w. 0 < w \<longrightarrow> Bounds (Resize W w w img k) = Rect 0 0 w w"
  shows "(\<forall>st r x y l. \<exists>tile.
       heap (Crop W F st r (flagTileSize F) x y l) = heap st @ [tile] \<and>
       tilesEncoded (trace (Crop W F st r (flagTileSize F) x y l)) =
         tilesEncoded (trace st) @
         (if createErr W (l, x, y) = None then [((l, x, y), tile)] else [])) \<and>
    map fst (tilesEncoded (trace (snd (main W F)))) =
      filter (\<lambda>c. createErr W c = None) (pyramidCells N) \<and>
    (\<forall>l x y t. ((l, x, y), t) \<in> set (tilesEncoded (trace (snd (main W F)))) \<longrightarrow>
       Bounds t = Rect 0 0 (flagTileSize F) (flagTileSize F) \<and>
       Dx (Bounds t) = flagTileSize F \<and> Dy (Bounds t) = flagTileSize F \<and>
       (\<forall>i j. 0 \<le> i \<and> i < flagTileSize F \<and> 0 \<le> j \<and> j < flagTileSize F \<longrightarrow>
          At t (i, j) =
            RGBAModel W
              (At (Resize W (2 ^ nat l * flagTileSize F) (2 ^ nat l * flagTileSize F) img k)
                 (x * flagTileSize F + i, y * flagTileSize F + j))))"
proof (intro conjI allI impI)
  note T = setup_facts(1) [OF assms(1)] and enc = setup_facts(2) [OF assms(1)]
  let ?T = "flagTileSize F"
  let ?raster = "\<lambda>l. Resize W (levelWidth ?T l) (levelWidth ?T l) img k"
  let ?created = "\<lambda>c. createErr W c = None"
  let ?tile = "\<lambda>l x y. last (snd (cropTile W [?raster l] 0 ?T x y))"
  have tiles: "tilesEncoded (trace (snd (main W F))) =
      concat (map (\<lambda>c. if ?created c then [(c, (\<lambda>(l, x, y). ?tile l x y) c)] else [])
        (pyramidCells N))"
    unfolding main_tiles [OF assms(1)]
      cells_as_coords [of ?created ?tile] ..
  show "\<exists>tile. heap (Crop W F st r ?T x y l) = heap st @ [tile] \<and>
      tilesEncoded (trace (Crop W F st r ?T x y l)) =
        tilesEncoded (trace st) @ (if createErr W (l, x, y) = None then [((l, x, y), tile)] else [])"
    for st r x y l
  proof -
    from Crop_fresh [of W F st r ?T x y l] obtain tile
      where h: "heap (Crop W F st r ?T x y l) = heap st @ [tile]"
        and t: "trace (Crop W F st r ?T x y l) =
          trace st @ writeTile W F (l, x, y) (tilePath W F l x y) tile"
      by blast
    have "tilesEncoded (trace (Crop W F st r ?T x y l)) =
        tilesEncoded (trace st) @ (if createErr W (l, x, y) = None then [((l, x, y), tile)] else [])"
      unfolding t by (simp add: tilesEncoded_writeTile [OF enc])
    with h show ?thesis by blast
  qed
  show "map fst (tilesEncoded (trace (snd (main W F)))) = filter ?created (pyramidCells N)"
    unfolding tiles by (rule fst_encoded)
  fix l x y t
  assume "((l, x, y), t) \<in> set (tilesEncoded (trace (snd (main W F))))"
  from encoded_member [OF this [unfolded tiles]]
  have cell: "(l, x, y) \<in> set (pyramidCells N)" and t: "t = ?tile l x y" by simp_all
  from cell have l: "0 \<le> l" "l \<le> N"
    and x: "0 \<le> x" "x < shiftLeft1 l" and y: "0 \<le> y" "y < shiftLeft1 l"
    by (simp_all add: set_pyramidCells)
  have fits: "2 ^ nat l * ?T < 2 ^ 63" using T l assms(2) by (rule level_le_fits)
  have side: "shiftLeft1 l = 2 ^ nat l"
    using l(1) level_fits [OF T l(1) fits] by (rule shiftLeft1_eq)
  have width: "levelWidth ?T l = 2 ^ nat l * ?T"
    using T l(1) fits by (intro levelWidth_eq) simp_all
  have pos: "0 < 2 ^ nat l * ?T" using T by simp
  from assms(3) pos have bounds: "Bounds (Resize W (2 ^ nat l * ?T) (2 ^ nat l * ?T) img k) =
      Rect 0 0 (2 ^ nat l * ?T) (2 ^ nat l * ?T)"
    by blast
  let ?h = "[Resize W (2 ^ nat l * ?T) (2 ^ nat l * ?T) img k]"
  obtain dst h' where c: "cropTile W ?h 0 ?T x y = (dst, h')"
    by (cases "cropTile W ?h 0 ?T x y") blast
  have b: "Bounds (?h ! 0) = Rect 0 0 (2 ^ nat l * ?T) (2 ^ nat l * ?T)"
    using bounds by simp
  have len: "0 < length ?h" by simp
  from cropTile_cell [OF len b fits T x(1) x(2) [unfolded side] y(1) y(2) [unfolded side] c]
  have dst: "dst = length ?h" and h': "length h' = Suc (length ?h)"
    and r: "Bounds (h' ! dst) = Rect 0 0 ?T ?T"
      "Dx (Bounds (h' ! dst)) = ?T" "Dy (Bounds (h' ! dst)) = ?T"
    and px: "\<forall>i j. 0 \<le> i \<and> i < ?T \<and> 0 \<le> j \<and> j < ?T \<longrightarrow>
      At (h' ! dst) (i, j) = RGBAModel W (At (?h ! 0) (x * ?T + i, y * ?T + j))"
    by blast+
  have "h' \<noteq> []" using h' by auto
  then have "last h' = h' ! dst" using dst h' by (simp add: last_conv_nth)
  then have tile: "t = h' ! dst" unfolding t width using c by simp
  show "Bounds t = Rect 0 0 ?T ?T" "Dx (Bounds t) = ?T" "Dy (Bounds t) = ?T"
    unfolding tile by (rule r)+
  fix i j
  assume "0 \<le> i \<and> i < ?T \<and> 0 \<le> j \<and> j < ?T"
  with px have "At (h' ! dst) (i, j) = RGBAModel W (At (?h ! 0) (x * ?T + i, y * ?T + j))"
    by blast
  then show "At t (i, j) =
      RGBAModel W (At (Resize W (2 ^ nat l * ?T) (2 ^ nat l * ?T) img k) (x * ?T + i, y * ?T + j))"
    unfolding tile by simp
qed

theorem C4_tile_witness:
  "main_setup exampleWorld16 (exampleFlags\<lparr>flagTileSize := 2\<rparr>) =
     Inr (exampleImage, Bicubic, 1, []) \<and>
   map fst (tilesEncoded (trace (snd (main exampleWorld16 (exampleFlags\<lparr>flagTileSize := 2\<rparr>))))) =
     [(1, 0, 0), (1, 1, 0), (1, 0, 1), (1, 1, 1), (0, 0, 0)] \<and>
   Bounds (snd (tilesEncoded (trace (snd (main exampleWorld16
     (exampleFlags\<lparr>flagTileSize := 2\<rparr>)))) ! 2)) = Rect 0 0 2 2 \<and>
   At (snd (tilesEncoded (trace (snd (main exampleWorld16
     (exampleFlags\<lparr>flagTileSize := 2\<rparr>)))) ! 2)) (1, 0) =
     RGBAModel exampleWorld16 (At (Resize exampleWorld16 4 4 exampleImage Bicubic) (1, 2)) \<and>
   RGBAModel exampleWorld16 (At (Resize exampleWorld16 4 4 exampleImage Bicubic) (1, 2)) = 18"
proof -
  let ?F = "exampleFlags\<lparr>flagTileSize := 2\<rparr>"
  let ?L = "tilesEncoded (trace (snd (main exampleWorld16 ?F)))"
  have s: "main_setup exampleWorld16 ?F = Inr (exampleImage, Bicubic, 1, [])"
    by (simp add: main_setup_def exampleWorld16_def exampleWorld_def exampleFlags_def
        lookupInterp_def interpFuncs_def validEncodings_def Ext_def ParseInt_def digitVal_def)
  have fits: "2 ^ nat 1 * flagTileSize ?F < 2 ^ 63" by simp
  have lib: "\<forall>w. 0 < w \<longrightarrow>
      Bounds (Resize exampleWorld16 w w exampleImage Bicubic) = Rect 0 0 w w"
    by (simp add: exampleWorld16_def exampleWorld_def)
  note run = C4_tile_is_converted_copy_of_its_cell [OF s fits lib]
  have coords: "map fst ?L = [(1, 0, 0), (1, 1, 0), (1, 0, 1), (1, 1, 1), (0, 0, 0)]"
    using run [THEN conjunct2, THEN conjunct1]
    by (simp add: pyramidCells_1 exampleWorld16_def exampleWorld_def)
  then have "length (map fst ?L) = 5" by simp
  then have len: "length ?L = 5" by simp
  from coords have "map fst ?L ! 2 = (1, 0, 1)" by simp
  with len have first: "fst (?L ! 2) = (1, 0, 1)" by simp
  from len have "?L ! 2 \<in> set ?L" by simp
  with first have mem: "((1, 0, 1), snd (?L ! 2)) \<in> set ?L"
    by (metis prod.collapse)
  from run [THEN conjunct2, THEN conjunct2, rule_format, OF mem]
  have b: "Bounds (snd (?L ! 2)) = Rect 0 0 (flagTileSize ?F) (flagTileSize ?F)"
    and px: "\<And>i j. 0 \<le> i \<and> i < flagTileSize ?F \<and> 0 \<le> j \<and> j < flagTileSize ?F \<Longrightarrow>
      At (snd (?L ! 2)) (i, j) =
        RGBAModel exampleWorld16
          (At (Resize exampleWorld16 (2 ^ nat 1 * flagTileSize ?F) (2 ^ nat 1 * flagTileSize ?F)
             exampleImage Bicubic)
            (0 * flagTileSize ?F + i, 1 * flagTileSize ?F + j))"
    by blast+
  from px [of 1 0] have p: "At (snd (?L ! 2)) (1, 0) =
      RGBAModel exampleWorld16 (At (Resize exampleWorld16 4 4 exampleImage Bicubic) (1, 2))"
    by simp
  have v: "RGBAModel exampleWorld16 (At (Resize exampleWorld16 4 4 exampleImage Bicubic) (1, 2)) = 18"
    by (simp add: exampleWorld16_def exampleWorld_def)
  from b have b': "Bounds (snd (?L ! 2)) = Rect 0 0 2 2" by simp
  from s coords b' p v show ?thesis by (intro conjI)
qed

text \<open>
  C2. The level check of \<^verbatim>\<open>main\<close> compares with 0 only. With the arguments \<open>-1\<close> and
  \<open>source.png\<close> the run prints nothing, creates no file and returns normally: it is not
  ended as a fatal error, as the run with level 0 is.
\<close>

theorem C2_negative_level_is_not_fatal:
  "main exampleWorld (exampleFlags\<lparr>args := [''-1'', ''source.png'']\<rparr>) =
     (Exit0, \<lparr>heap = [exampleImage], trace = []\<rparr>) \<and>
   main exampleWorld (exampleFlags\<lparr>args := [''0'', ''source.png'']\<rparr>) =
     (Fatal ''level must be at least 1'', \<lparr>heap = [], trace = []\<rparr>)"
  by (simp add: main_def main_setup_def exampleWorld_def exampleFlags_def lookupInterp_def
      interpFuncs_def validEncodings_def Ext_def ParseInt_def digitVal_def)

text \<open>
  C3. With \<^verbatim>\<open>-interp Foo\<close> the program prints the valid names and goes on: the run
  returns normally, resamples both levels with the zero value of the kernel type,
  \<open>NearestNeighbor\<close>, and writes all five tiles.
\<close>

theorem C3_unknown_kernel_is_not_fatal:
  "fst (main exampleWorld (exampleFlags\<lparr>flagInterpFunc := ''Foo''\<rparr>)) = Exit0 \<and>
   resizeCalls (trace (snd (main exampleWorld (exampleFlags\<lparr>flagInterpFunc := ''Foo''\<rparr>)))) =
     [(0, 512, 512, NearestNeighbor), (0, 256, 256, NearestNeighbor)] \<and>
   tilesWritten (trace (snd (main exampleWorld (exampleFlags\<lparr>flagInterpFunc := ''Foo''\<rparr>)))) =
     [(1, 0, 0), (1, 1, 0), (1, 0, 1), (1, 1, 1), (0, 0, 0)] \<and>
   take 2 (trace (snd (main exampleWorld (exampleFlags\<lparr>flagInterpFunc := ''Foo''\<rparr>)))) =
     [Stderr ''Valid interpolation function parameters:'', Stderr '' NearestNeighbor'']"
proof -
  let ?F = "exampleFlags\<lparr>flagInterpFunc := ''Foo''\<rparr>"
  let ?out = "Stderr ''Valid interpolation function parameters:'' #
      map (\<lambda>fn. Stderr ('' '' @ fn)) (map fst interpFuncs) :: nat Image Event list"
  have s: "main_setup exampleWorld ?F = Inr (exampleImage, NearestNeighbor, 1, ?out)"
    by (simp add: main_setup_def exampleWorld_def exampleFlags_def lookupInterp_def
        interpFuncs_def validEncodings_def Ext_def ParseInt_def digitVal_def)
  have levels: "rev [0..1 :: int] = [1, 0]" by (simp add: upto_rec1)
  have T: "flagTileSize ?F = 256" by (simp add: exampleFlags_def)
  have w: "levelWidth 256 1 = 512" "levelWidth 256 0 = 256"
    by (simp_all add: levelWidth_def shiftLeft1_def uint64_def int64_def)
  have r: "resizeCalls (trace (snd (main exampleWorld ?F))) =
      [(0, 512, 512, NearestNeighbor), (0, 256, 256, NearestNeighbor)]"
    unfolding main_resizeCalls [OF s] T levels by (simp add: w)
  have t: "tilesWritten (trace (snd (main exampleWorld ?F))) =
      [(1, 0, 0), (1, 1, 0), (1, 0, 1), (1, 1, 1), (0, 0, 0)]"
    unfolding main_written [OF s] pyramidCells_1 by (simp add: exampleWorld_def)
  from trace_prefix [of exampleWorld ?F "flagTileSize ?F" NearestNeighbor
      "\<lparr>heap = [exampleImage], trace = ?out\<rparr>" "rev [0..1]"]
  obtain ts where "trace (foldl (\<lambda>st i. SplitTiles exampleWorld ?F st 0 (flagTileSize ?F) i NearestNeighbor)
      \<lparr>heap = [exampleImage], trace = ?out\<rparr> (rev [0..1])) = ?out @ ts"
    by auto
  then have p: "take 2 (trace (snd (main exampleWorld ?F))) =
      [Stderr ''Valid interpolation function parameters:'', Stderr '' NearestNeighbor'']"
    by (simp add: main_def s interpFuncs_def)
  from main_run(1) [OF s] r t p show ?thesis by (intro conjI)
qed

end
